(* ===== verification/Prelude.thy ===== *)
theory Prelude
  imports Main "HOL-Library.Char_ord" "HOL-Library.List_Lexorder" "HOL-Library.Sublist"
begin

text \<open>
  Shared vocabulary of the development: the faults a C++ execution can run into, the
  result type that carries them, the parts of \<^verbatim>\<open>std::string\<close> the program
  uses, printing and reading of decimal integers (\<^verbatim>\<open>std::to_string\<close>,
  \<^verbatim>\<open>operator<<\<close> on \<^verbatim>\<open>int\<close>, \<^verbatim>\<open>atoi\<close>), and
  \<^verbatim>\<open>std::map\<close> with string keys as an association list in key order.
\<close>

section \<open>Faults and results\<close>

text \<open>
  What C++ leaves undefined or what ends the process is a value here, so that no
  definition hides it: a null pointer is dereferenced, a vector is indexed out of range,
  a signed integer overflows, a library conversion has no defined result, or an exception is
  thrown; no caller of the modelled functions below \<^verbatim>\<open>handleRequest\<close> catches one,
  and \<^verbatim>\<open>handleRequest\<close> is \<^verbatim>\<open>noexcept\<close>, so it ends the process
  (\<^verbatim>\<open>std::terminate\<close>).
\<close>

datatype fault =
    Null_Dereference
  | Out_Of_Range
  | Int_Overflow
  | Undefined_Conversion
  | Exception_Thrown

type_synonym 'a res = "fault + 'a"

definition bind_res :: "'a res \<Rightarrow> ('a \<Rightarrow> 'b res) \<Rightarrow> 'b res" where
  "bind_res r f = (case r of Inl e \<Rightarrow> Inl e | Inr x \<Rightarrow> f x)"

named_theorems res_simps \<open>equations that run the result type\<close>

lemma bind_res_Inl [simp, res_simps]: "bind_res (Inl e) f = Inl e"
  by (simp add: bind_res_def)

lemma bind_res_Inr [simp, res_simps]: "bind_res (Inr x) f = f x"
  by (simp add: bind_res_def)

lemma bind_res_eq_Inr_iff [res_simps]:
  "bind_res r f = Inr y \<longleftrightarrow> (\<exists>x. r = Inr x \<and> f x = Inr y)"
  by (cases r) auto

lemma bind_res_eq_Inl_iff:
  "bind_res r f = Inl e \<longleftrightarrow> r = Inl e \<or> (\<exists>x. r = Inr x \<and> f x = Inl e)"
  by (cases r) auto

lemma bind_res_cong [fundef_cong]:
  assumes "r = r'" and "\<And>x. r' = Inr x \<Longrightarrow> f x = g x"
  shows "bind_res r f = bind_res r' g"
  using assms by (cases r') auto

section \<open>Strings\<close>

text \<open>
  \<^verbatim>\<open>std::string::find(c)\<close> and \<^verbatim>\<open>find_last_of(c)\<close>: the position
  of the first and of the last occurrence, \<open>None\<close> for \<^verbatim>\<open>npos\<close>.
\<close>

fun find_char :: "char \<Rightarrow> string \<Rightarrow> nat option" where
  "find_char c [] = None"
| "find_char c (x # xs) = (if x = c then Some 0 else map_option Suc (find_char c xs))"

fun find_last_of :: "char \<Rightarrow> string \<Rightarrow> nat option" where
  "find_last_of c [] = None"
| "find_last_of c (x # xs) =
     (case find_last_of c xs of
        Some i \<Rightarrow> Some (Suc i)
      | None \<Rightarrow> (if x = c then Some 0 else None))"

lemma find_char_None_iff [simp]: "find_char c s = None \<longleftrightarrow> c \<notin> set s"
  by (induction s) auto

lemma find_char_append_notin:
  "c \<notin> set u \<Longrightarrow> find_char c (u @ c # p) = Some (length u)"
  by (induction u) auto

lemma find_char_SomeD:
  "find_char c s = Some i \<Longrightarrow> c \<notin> set (take i s) \<and> i < length s \<and> s = take i s @ c # drop (Suc i) s"
proof (induction s arbitrary: i)
  case (Cons x xs)
  then show ?case by (cases i) (auto split: if_splits)
qed simp

lemma find_last_of_None_iff [simp]: "find_last_of c s = None \<longleftrightarrow> c \<notin> set s"
  by (induction s) (auto split: option.splits)

lemma find_last_of_append_notin:
  "c \<notin> set v \<Longrightarrow> find_last_of c (u @ c # v) = Some (length u)"
proof (induction u)
  case Nil
  then have "find_last_of c v = None" by simp
  then show ?case by (simp del: find_last_of_None_iff)
qed simp

text \<open>
  The loop \<^verbatim>\<open>while (s.length() > 1 && s.back() == '/') s.pop_back();\<close>, which
  the dispatcher runs on every path.
\<close>

function strip_trailing_slashes :: "string \<Rightarrow> string" where
  "strip_trailing_slashes s =
     (if length s > 1 \<and> last s = CHR ''/'' then strip_trailing_slashes (butlast s) else s)"
  by pat_completeness auto
termination
  by (relation "measure length") auto

declare strip_trailing_slashes.simps [simp del]

lemma strip_trailing_slashes_idem [simp]:
  "strip_trailing_slashes (strip_trailing_slashes s) = strip_trailing_slashes s"
proof (induction s rule: strip_trailing_slashes.induct)
  case (1 s)
  then show ?case
    by (cases "length s > 1 \<and> last s = CHR ''/''")
       (auto simp: strip_trailing_slashes.simps [of s])
qed

lemma strip_trailing_slashes_prefix: "prefix (strip_trailing_slashes s) s"
proof (induction s rule: strip_trailing_slashes.induct)
  case (1 s)
  show ?case
  proof (cases "length s > 1 \<and> last s = CHR ''/''")
    case True
    with "1.IH" have "prefix (strip_trailing_slashes (butlast s)) (butlast s)" by blast
    then have "prefix (strip_trailing_slashes (butlast s)) s"
      using prefix_order.trans prefixeq_butlast by blast
    with True show ?thesis by (simp add: strip_trailing_slashes.simps [of s])
  next
    case False
    then show ?thesis by (auto simp: strip_trailing_slashes.simps [of s])
  qed
qed

lemma strip_trailing_slashes_nonempty:
  "strip_trailing_slashes s = [] \<longleftrightarrow> s = []"
proof (induction s rule: strip_trailing_slashes.induct)
  case (1 s)
  show ?case
  proof (cases "length s > 1 \<and> last s = CHR ''/''")
    case True
    then have "s \<noteq> []" and "butlast s \<noteq> []"
      by (auto simp: butlast_conv_take)
    with True "1.IH" show ?thesis by (simp add: strip_trailing_slashes.simps [of s])
  next
    case False
    then show ?thesis by (auto simp: strip_trailing_slashes.simps [of s])
  qed
qed

section \<open>Decimal integers\<close>

definition digit_char :: "nat \<Rightarrow> char" where
  "digit_char d = char_of (48 + d)"

definition isdigit :: "char \<Rightarrow> bool" where
  "isdigit c \<longleftrightarrow> 48 \<le> (of_char c :: nat) \<and> (of_char c :: nat) \<le> 57"

definition isspace :: "char \<Rightarrow> bool" where
  "isspace c \<longleftrightarrow> (of_char c :: nat) = 32 \<or> 9 \<le> (of_char c :: nat) \<and> (of_char c :: nat) \<le> 13"

definition digit_value :: "char \<Rightarrow> nat" where
  "digit_value c = of_char c - 48"

text \<open>
  \<^verbatim>\<open>std::to_string\<close> and \<^verbatim>\<open>oss << id\<close>: decimal notation, no
  leading zeros, a minus sign for negative values.
\<close>

fun nat_to_string :: "nat \<Rightarrow> string" where
  "nat_to_string n =
     (if n < 10 then [digit_char n] else nat_to_string (n div 10) @ [digit_char (n mod 10)])"

declare nat_to_string.simps [simp del]

definition int_to_string :: "int \<Rightarrow> string" where
  "int_to_string i = (if i < 0 then CHR ''-'' # nat_to_string (nat (- i)) else nat_to_string (nat i))"

definition digits_value :: "string \<Rightarrow> nat" where
  "digits_value s = foldl (\<lambda>n c. 10 * n + digit_value c) 0 s"

definition INT_MAX :: int where "INT_MAX = 2147483647"
definition INT_MIN :: int where "INT_MIN = - 2147483648"

text \<open>
  \<^verbatim>\<open>atoi\<close>: optional white space, an optional sign, the longest run of digits (0
  when there is none). The standard leaves the result undefined when the value does not
  fit in an \<^verbatim>\<open>int\<close>.
\<close>

definition atoi :: "string \<Rightarrow> int res" where
  "atoi s =
     (let t = dropWhile isspace s;
          neg = (case t of c # _ \<Rightarrow> c = CHR ''-'' | [] \<Rightarrow> False);
          signed = (case t of c # _ \<Rightarrow> c = CHR ''-'' \<or> c = CHR ''+'' | [] \<Rightarrow> False);
          ds = takeWhile isdigit (if signed then tl t else t);
          v = int (digits_value ds);
          r = (if neg then - v else v)
      in if INT_MIN \<le> r \<and> r \<le> INT_MAX then Inr r else Inl Undefined_Conversion)"

lemma of_char_digit_char [simp]: "d < 10 \<Longrightarrow> (of_char (digit_char d) :: nat) = 48 + d"
  by (simp add: digit_char_def)

lemma isdigit_digit_char [simp]: "d < 10 \<Longrightarrow> isdigit (digit_char d)"
  by (simp add: isdigit_def)

lemma digit_value_digit_char [simp]: "d < 10 \<Longrightarrow> digit_value (digit_char d) = d"
  by (simp add: digit_value_def)

lemma nat_to_string_nonempty [simp]: "nat_to_string n \<noteq> []"
  by (subst nat_to_string.simps) simp

lemma nat_to_string_digits: "c \<in> set (nat_to_string n) \<Longrightarrow> isdigit c"
proof (induction n rule: nat_to_string.induct)
  case (1 n)
  then show ?case by (auto simp: nat_to_string.simps [of n] split: if_splits)
qed

lemma digits_value_snoc [simp]: "digits_value (s @ [c]) = 10 * digits_value s + digit_value c"
  by (simp add: digits_value_def)

lemma digits_value_nat_to_string [simp]: "digits_value (nat_to_string n) = n"
proof (induction n rule: nat_to_string.induct)
  case (1 n)
  show ?case
  proof (cases "n < 10")
    case True
    then show ?thesis by (simp add: nat_to_string.simps [of n] digits_value_def)
  next
    case False
    with "1" show ?thesis by (simp add: nat_to_string.simps [of n])
  qed
qed

lemma nat_to_string_inj [simp]: "nat_to_string m = nat_to_string n \<longleftrightarrow> m = n"
  using digits_value_nat_to_string by metis

lemma int_to_string_nonneg: "0 \<le> i \<Longrightarrow> int_to_string i = nat_to_string (nat i)"
  by (simp add: int_to_string_def)

lemma isdigit_not_minus: "\<not> isdigit CHR ''-''"
  by (simp add: isdigit_def)

lemma isdigit_not_slash: "\<not> isdigit CHR ''/''"
  by (simp add: isdigit_def)

lemma nat_to_string_hd: "isdigit (hd (nat_to_string n))"
  by (rule nat_to_string_digits [of _ n]) simp

lemma int_to_string_inj [simp]: "int_to_string i = int_to_string j \<longleftrightarrow> i = j"
proof -
  have "nat_to_string n \<noteq> CHR ''-'' # s" for n s
    using nat_to_string_hd [of n] isdigit_not_minus by (metis list.sel(1))
  then show ?thesis by (auto simp: int_to_string_def dest: sym)
qed

lemma int_to_string_nonempty [simp]: "int_to_string i \<noteq> []"
  by (simp add: int_to_string_def)

lemma slash_notin_int_to_string [simp]: "CHR ''/'' \<notin> set (int_to_string i)"
proof -
  have "CHR ''/'' \<notin> set (nat_to_string n)" for n
    using nat_to_string_digits isdigit_not_slash by blast
  then show ?thesis by (simp add: int_to_string_def)
qed

lemma last_int_to_string [simp]: "last (int_to_string i) \<noteq> CHR ''/''"
  by (metis int_to_string_nonempty last_in_set slash_notin_int_to_string)

lemma hd_int_to_string_digit: "0 \<le> i \<Longrightarrow> isdigit (hd (int_to_string i))"
  by (simp add: int_to_string_nonneg nat_to_string_hd)

lemma takeWhile_all_digits: "takeWhile isdigit (nat_to_string n) = nat_to_string n"
  by (simp add: takeWhile_eq_all_conv nat_to_string_digits)

text \<open>Reading back a printed \<^verbatim>\<open>int\<close> gives the same value.\<close>

lemma isdigit_not_space: "isdigit c \<Longrightarrow> \<not> isspace c"
  by (auto simp: isdigit_def isspace_def)

lemma atoi_int_to_string:
  assumes "INT_MIN \<le> i" and "i \<le> INT_MAX"
  shows "atoi (int_to_string i) = Inr i"
proof (cases "i < 0")
  case True
  then show ?thesis
    using assms by (simp add: atoi_def int_to_string_def isspace_def takeWhile_all_digits)
next
  case False
  obtain c cs where ns: "nat_to_string (nat i) = c # cs"
    by (metis list.exhaust nat_to_string_nonempty)
  have "isdigit c" using nat_to_string_hd [of "nat i"] by (simp add: ns)
  then have "c \<noteq> CHR ''-''" "c \<noteq> CHR ''+''" "\<not> isspace c"
    by (auto simp: isdigit_def isdigit_not_space)
  moreover have "takeWhile isdigit (c # cs) = c # cs"
    using takeWhile_all_digits [of "nat i"] by (simp add: ns)
  moreover have "digits_value (c # cs) = nat i"
    using digits_value_nat_to_string [of "nat i"] by (simp add: ns)
  ultimately show ?thesis
    using False assms by (simp add: atoi_def int_to_string_def ns)
qed

section \<open>std::map with string keys\<close>

text \<open>
  A \<^verbatim>\<open>std::map<std::string, V>\<close> that the program iterates over is an association
  list in ascending key order (\<^verbatim>\<open>std::less<std::string>\<close> compares the bytes as
  unsigned values, as the order on \<^typ>\<open>char list\<close> does).
  \<open>smap_assign k v m\<close> is \<^verbatim>\<open>m[k] = v\<close>.
\<close>

type_synonym 'v smap = "(string \<times> 'v) list"

fun smap_assign :: "string \<Rightarrow> 'v \<Rightarrow> 'v smap \<Rightarrow> 'v smap" where
  "smap_assign k v [] = [(k, v)]"
| "smap_assign k v ((k', v') # m) =
     (if k < k' then (k, v) # (k', v') # m
      else if k = k' then (k, v) # m
      else (k', v') # smap_assign k v m)"

definition smap_inv :: "'v smap \<Rightarrow> bool" where
  "smap_inv m \<longleftrightarrow> sorted_wrt (<) (map fst m)"

lemma map_of_smap_assign [simp]: "map_of (smap_assign k v m) = (map_of m)(k \<mapsto> v)"
  by (induction m) auto

lemma set_fst_smap_assign [simp]:
  "fst ` set (smap_assign k v m) = insert k (fst ` set m)"
  by (induction k v m rule: smap_assign.induct) (simp_all add: insert_commute)

lemma smap_inv_Nil [simp]: "smap_inv []"
  by (simp add: smap_inv_def)

lemma smap_inv_assign [simp]: "smap_inv m \<Longrightarrow> smap_inv (smap_assign k v m)"
  by (induction m) (force simp: smap_inv_def)+

lemma smap_inv_distinct: "smap_inv m \<Longrightarrow> distinct (map fst m)"
  by (simp add: smap_inv_def strict_sorted_iff)

end
