(* ===== verification/Base64.thy ===== *)
theory Base64
  imports Prelude "HOL-Library.Word"
begin

text \<open>
  \<^verbatim>\<open>base64_decode\<close> of \<^verbatim>\<open>src/session.cc\<close>, on a 32-bit accumulator as
  the code has it, and the encoder of RFC 4648 as its reference.
\<close>

unbundle bit_operations_syntax

section \<open>The decoder\<close>

definition base64_alphabet :: string where
  "base64_alphabet = ''ABCDEFGHIJKLMNOPQRSTUVWXYZabcdefghijklmnopqrstuvwxyz0123456789+/''"

text \<open>The table \<^verbatim>\<open>T\<close>: 256 entries of -1, then one assignment per alphabet character.\<close>

definition base64_T :: "int list" where
  "base64_T =
     foldl (\<lambda>T i. T[of_char (base64_alphabet ! i) := int i]) (replicate 256 (-1)) [0..<64]"

text \<open>
  The loop over the input: \<^verbatim>\<open>val\<close> is an \<^verbatim>\<open>int\<close> and keeps the low 32 bits
  of the shifted sum (the two's-complement result compilers produce when the shift leaves the
  range), \<^verbatim>\<open>>>\<close> is the arithmetic shift. \<^verbatim>\<open>valb\<close> stays between -8
  and 4.
\<close>

fun base64_loop :: "32 word \<Rightarrow> int \<Rightarrow> string \<Rightarrow> string \<Rightarrow> string" where
  "base64_loop val valb out [] = out"
| "base64_loop val valb out (c # input) =
     (let t = base64_T ! of_char c in
      if t = -1 then out
      else
        let val' = push_bit 6 val + word_of_int t; valb' = valb + 6 in
        if valb' \<ge> 0
        then base64_loop val' (valb' - 8)
               (out @ [char_of (unat (signed_drop_bit (nat valb') val' AND 0xFF))]) input
        else base64_loop val' valb' out input)"

definition base64_decode :: "string \<Rightarrow> string" where
  "base64_decode input = base64_loop 0 (-8) [] input"

section \<open>The alphabet\<close>

definition base64_digit :: "nat \<Rightarrow> char" where
  "base64_digit i = base64_alphabet ! i"

lemma length_base64_alphabet [simp]: "length base64_alphabet = 64"
  by (simp add: base64_alphabet_def)

lemma distinct_base64_alphabet: "distinct base64_alphabet"
  by (simp add: base64_alphabet_def)

lemma foldl_update_length [simp]: "length (foldl (\<lambda>T i. T[f i := g i]) T0 is) = length T0"
  by (induction "is" arbitrary: T0) auto

lemma foldl_update_notin:
  "k \<notin> f ` set is \<Longrightarrow> foldl (\<lambda>T i. T[f i := g i]) T0 is ! k = T0 ! k"
  by (induction "is" arbitrary: T0) auto

lemma foldl_update_in:
  "inj_on f (set is) \<Longrightarrow> distinct is \<Longrightarrow> i \<in> set is \<Longrightarrow> f i < length T0 \<Longrightarrow>
   foldl (\<lambda>T i. T[f i := g i]) T0 is ! f i = g i"
proof (induction "is" arbitrary: T0)
  case (Cons j js)
  show ?case
  proof (cases "i = j")
    case True
    have "f j \<notin> f ` set js" using Cons.prems(1,2) by auto
    then show ?thesis using True Cons.prems(4) by (simp add: foldl_update_notin)
  next
    case False
    then show ?thesis using Cons by simp
  qed
qed simp

lemma base64_index_inj: "inj_on (\<lambda>i. of_char (base64_alphabet ! i) :: nat) (set [0..<64])"
  using distinct_base64_alphabet by (auto simp: inj_on_def nth_eq_iff_index_eq)

lemma base64_T_digit: "i < 64 \<Longrightarrow> base64_T ! of_char (base64_digit i) = int i"
  unfolding base64_T_def base64_digit_def
  using foldl_update_in [OF base64_index_inj, of i "replicate 256 (- 1)" int] by simp

lemma base64_T_other:
  assumes "c \<notin> set base64_alphabet"
  shows "base64_T ! of_char c = -1"
proof -
  have "of_char c \<notin> (\<lambda>i. of_char (base64_alphabet ! i) :: nat) ` set [0..<64]"
    using assms by (auto simp: in_set_conv_nth)
  from foldl_update_notin [OF this, of int "replicate 256 (- 1)"] show ?thesis
    by (simp add: base64_T_def)
qed

lemma base64_T_pad [simp]: "base64_T ! of_char CHR ''='' = -1"
  by (rule base64_T_other) (simp add: base64_alphabet_def)

lemma base64_T_cases:
  obtains "base64_T ! of_char c = -1" | i where "i < 64" and "base64_T ! of_char c = int i"
  using base64_T_other base64_T_digit
  by (metis base64_digit_def in_set_conv_nth length_base64_alphabet)

section \<open>The accumulator without its width\<close>

text \<open>
  The same loop on an unbounded accumulator: only the low twelve bits of \<^verbatim>\<open>val\<close>
  reach the output, so the width of \<^verbatim>\<open>int\<close> does not matter.
\<close>

fun base64_loop_nat :: "nat \<Rightarrow> int \<Rightarrow> string \<Rightarrow> string \<Rightarrow> string" where
  "base64_loop_nat val valb out [] = out"
| "base64_loop_nat val valb out (c # input) =
     (let t = base64_T ! of_char c in
      if t = -1 then out
      else
        let val' = 64 * val + nat t; valb' = valb + 6 in
        if valb' \<ge> 0
        then base64_loop_nat val' (valb' - 8) (out @ [char_of (val' div 2 ^ nat valb' mod 256)]) input
        else base64_loop_nat val' valb' out input)"

lemma unat_shifted_byte:
  fixes v :: "32 word"
  assumes "k \<le> 24"
  shows "unat (signed_drop_bit k v AND 0xFF) = unat v div 2 ^ k mod 256"
proof -
  have "signed_drop_bit k v AND 0xFF = drop_bit k v AND 0xFF"
  proof (rule bit_word_eqI)
    fix n assume "n < LENGTH(32)"
    have "bit (0xFF :: 32 word) n \<longleftrightarrow> n < 8"
    proof -
      have "(0xFF :: 32 word) = mask 8" by (simp add: mask_eq_exp_minus_1)
      then show ?thesis using \<open>n < LENGTH(32)\<close> by (simp only: bit_mask_iff) simp
    qed
    then show "bit (signed_drop_bit k v AND 0xFF) n = bit (drop_bit k v AND 0xFF) n"
      using assms \<open>n < LENGTH(32)\<close> by (auto simp: bit_simps)
  qed
  also have "drop_bit k v AND 0xFF = take_bit 8 (drop_bit k v)"
    by (simp add: take_bit_eq_mask mask_eq_exp_minus_1)
  finally have "unat (signed_drop_bit k v AND 0xFF) = take_bit 8 (drop_bit k (unat v))"
    by (simp only: unsigned_take_bit_eq unat_drop_bit_eq)
  then show ?thesis by (simp add: take_bit_eq_mod drop_bit_eq_div)
qed

lemma unat_accumulate:
  fixes v :: "32 word"
  assumes "0 \<le> t" and "t < 64" and "unat v = n mod 2 ^ 32"
  shows "unat (push_bit 6 v + word_of_int t) = (64 * n + nat t) mod 2 ^ 32"
proof -
  have "word_of_int t = (word_of_nat (nat t) :: 32 word)" using assms(1) by simp
  then have "push_bit 6 v + word_of_int t = (word_of_nat (64 * unat v + nat t) :: 32 word)"
    by (simp add: push_bit_eq_mult)
  then have "unat (push_bit 6 v + word_of_int t) = (64 * (n mod 2 ^ 32) + nat t) mod 2 ^ 32"
    using assms(3) by (simp only: unat_of_nat) simp
  then show ?thesis by (metis mod_add_left_eq mod_mult_right_eq)
qed

lemma byte_of_mod: "k \<le> 24 \<Longrightarrow> (x mod 2 ^ 32) div 2 ^ k mod 256 = (x :: nat) div 2 ^ k mod 256"
proof -
  assume k: "k \<le> 24"
  have "take_bit 8 (drop_bit k (take_bit 32 x)) = take_bit 8 (drop_bit k x)"
    using k by (intro bit_eqI) (auto simp: bit_simps)
  then show ?thesis by (simp add: take_bit_eq_mod drop_bit_eq_div)
qed

lemma base64_loop_eq_nat:
  "unat val = n mod 2 ^ 32 \<Longrightarrow> -8 \<le> valb \<Longrightarrow> valb < 0 \<Longrightarrow>
   base64_loop val valb out s = base64_loop_nat n valb out s"
proof (induction s arbitrary: val n valb out)
  case (Cons c s)
  show ?case
  proof (rule base64_T_cases [of c])
    assume "base64_T ! of_char c = -1"
    then show ?thesis by simp
  next
    fix i assume i: "i < 64" "base64_T ! of_char c = int i"
    let ?val = "push_bit 6 val + word_of_int (int i) :: 32 word"
    have acc: "unat ?val = (64 * n + i) mod 2 ^ 32"
      using unat_accumulate [of "int i" val n] i(1) Cons.prems(1) by simp
    show ?thesis
    proof (cases "valb + 6 \<ge> 0")
      case True
      have k: "nat (valb + 6) \<le> 24" using Cons.prems by simp
      have "unat (signed_drop_bit (nat (valb + 6)) ?val AND 0xFF) =
          (64 * n + i) div 2 ^ nat (valb + 6) mod 256"
        by (simp only: unat_shifted_byte [OF k] acc byte_of_mod [OF k])
      then show ?thesis
        using True i Cons.prems Cons.IH [OF acc, of "valb + 6 - 8"] by (simp add: Let_def)
    next
      case False
      then show ?thesis
        using i Cons.prems Cons.IH [OF acc, of "valb + 6"] by (simp add: Let_def)
    qed
  qed
qed simp

section \<open>The encoder of RFC 4648\<close>

fun base64_encode :: "string \<Rightarrow> string" where
  "base64_encode [] = []"
| "base64_encode [a] =
     [base64_digit (of_char a div 4), base64_digit (of_char a mod 4 * 16), CHR ''='', CHR ''='']"
| "base64_encode [a, b] =
     [base64_digit (of_char a div 4), base64_digit (of_char a mod 4 * 16 + of_char b div 16),
      base64_digit (of_char b mod 16 * 4), CHR ''='']"
| "base64_encode (a # b # c # s) =
     [base64_digit (of_char a div 4), base64_digit (of_char a mod 4 * 16 + of_char b div 16),
      base64_digit (of_char b mod 16 * 4 + of_char c div 64), base64_digit (of_char c mod 64)] @ base64_encode s"

lemma digit_bounds:
  fixes a b :: nat
  assumes "a < 256" and "b < 256"
  shows "a div 4 < 64" and "a mod 4 * 16 < 64" and "a mod 16 * 4 < 64" and "a mod 64 < 64"
    and "a mod 4 * 16 + b div 16 < 64" and "a mod 16 * 4 + b div 64 < 64"
proof -
  have "a mod 4 < 4" "b div 16 < 16" "a mod 16 < 16" "b div 64 < 4" using assms by auto
  then show "a mod 4 * 16 + b div 16 < 64" and "a mod 16 * 4 + b div 64 < 64"
    and "a mod 4 * 16 < 64" and "a mod 16 * 4 < 64" by linarith+
qed (use assms in auto)

text \<open>The three bytes of a group come out of the low bits of the accumulator.\<close>

lemma group_bytes:
  fixes a b c n :: nat
  assumes "a < 256" and "b < 256" and "c < 256"
  shows "(64 * (64 * n + a div 4) + (a mod 4 * 16 + b div 16)) div 16 mod 256 = a"
    and "(64 * (64 * n + (a mod 4 * 16 + b div 16)) + (b mod 16 * 4 + c div 64)) div 4 mod 256 = b"
    and "(64 * (64 * n + (b mod 16 * 4 + c div 64)) + c mod 64) mod 256 = c"
proof -
  have split: "64 * (64 * n + q) + (r * 16 + y) = 16 * (256 * n + (4 * q + r)) + y"
    "64 * (64 * n + (p * 16 + q)) + (r * 4 + y) = 4 * (256 * (4 * n + p) + (16 * q + r)) + y"
    "64 * (64 * n + (p * 4 + q)) + r = 256 * (16 * n + p) + (64 * q + r)" for p q r y :: nat
    by simp_all
  have small: "b div 16 < 16" "c div 64 < 4" using assms by auto
  have quotient: "y < 16 \<Longrightarrow> (16 * x + y) div 16 = x" "z < 4 \<Longrightarrow> (4 * x + z) div 4 = x" for x y z :: nat
    by simp_all
  have remainder: "z < 256 \<Longrightarrow> (256 * x + z) mod 256 = z" for x z :: nat
    by simp
  have "64 * (64 * n + a div 4) + (a mod 4 * 16 + b div 16) = 16 * (256 * n + a) + b div 16"
    by (simp only: split(1) mult_div_mod_eq)
  then show "(64 * (64 * n + a div 4) + (a mod 4 * 16 + b div 16)) div 16 mod 256 = a"
    by (simp only: quotient(1) [OF small(1)] remainder [OF assms(1)])
  have "64 * (64 * n + (a mod 4 * 16 + b div 16)) + (b mod 16 * 4 + c div 64) =
      4 * (256 * (4 * n + a mod 4) + b) + c div 64"
    by (simp only: split(2) mult_div_mod_eq)
  then show "(64 * (64 * n + (a mod 4 * 16 + b div 16)) + (b mod 16 * 4 + c div 64)) div 4 mod 256 = b"
    by (simp only: quotient(2) [OF small(2)] remainder [OF assms(2)])
  have "64 * (64 * n + (b mod 16 * 4 + c div 64)) + c mod 64 = 256 * (16 * n + b mod 16) + c"
    by (simp only: split(3) mult_div_mod_eq)
  then show "(64 * (64 * n + (b mod 16 * 4 + c div 64)) + c mod 64) mod 256 = c"
    by (simp only: remainder [OF assms(3)])
qed

lemma base64_loop_nat_digits:
  assumes "i < 64"
  shows "base64_loop_nat n (-8) out (base64_digit i # s) = base64_loop_nat (64 * n + i) (-2) out s"
    and "base64_loop_nat n (-2) out (base64_digit i # s) =
         base64_loop_nat (64 * n + i) (-4) (out @ [char_of ((64 * n + i) div 16 mod 256)]) s"
    and "base64_loop_nat n (-4) out (base64_digit i # s) =
         base64_loop_nat (64 * n + i) (-6) (out @ [char_of ((64 * n + i) div 4 mod 256)]) s"
    and "base64_loop_nat n (-6) out (base64_digit i # s) =
         base64_loop_nat (64 * n + i) (-8) (out @ [char_of ((64 * n + i) mod 256)]) s"
  using base64_T_digit [OF assms] by (simp_all add: Let_def)

lemma base64_loop_nat_pad: "base64_loop_nat n valb out (CHR ''='' # s) = out"
  using base64_T_pad by (simp del: base64_T_pad of_char_Char)

lemma base64_loop_nat_encode:
  "base64_loop_nat n (-8) out (base64_encode s) = out @ s"
proof (induction s arbitrary: n out rule: base64_encode.induct)
  case (2 a)
  have a: "(of_char a :: nat) < 256" by simp
  have "(64 * (64 * n + of_char a div 4) + of_char a mod 4 * 16) div 16 mod 256 = (of_char a :: nat)"
    using group_bytes(1) [OF a, of 0 0 n] by simp
  then show ?case
    by (simp only: base64_encode.simps base64_loop_nat_digits digit_bounds [OF a a] base64_loop_nat_pad
        char_of_char append_Nil)
next
  case (3 a b)
  have ab: "(of_char a :: nat) < 256" "(of_char b :: nat) < 256" by simp_all
  have "(64 * (64 * (64 * n + of_char a div 4) + (of_char a mod 4 * 16 + of_char b div 16)) + of_char b mod 16 * 4)
      div 4 mod 256 = (of_char b :: nat)"
    using group_bytes(2) [OF ab, of 0 "64 * n + of_char a div 4"] by simp
  then show ?case
    using group_bytes(1) [OF ab, of 0 n]
    by (simp only: base64_encode.simps base64_loop_nat_digits digit_bounds [OF ab] digit_bounds [OF ab(2) ab(2)]
        base64_loop_nat_pad char_of_char append_assoc append_Cons append_Nil)
next
  case (4 a b c s)
  have abc: "(of_char a :: nat) < 256" "(of_char b :: nat) < 256" "(of_char c :: nat) < 256" by simp_all
  show ?case
    by (simp only: base64_encode.simps append_Cons append_Nil base64_loop_nat_digits group_bytes [OF abc]
        digit_bounds [OF abc(1,2)] digit_bounds [OF abc(2,3)] digit_bounds [OF abc(3,3)]
        "4.IH" char_of_char append_assoc)
qed simp

lemma base64_loop_encode: "base64_loop 0 (-8) [] (base64_encode s) = s"
proof -
  have "base64_loop 0 (-8) [] (base64_encode s) = base64_loop_nat 0 (-8) [] (base64_encode s)"
    by (rule base64_loop_eq_nat) simp_all
  then show ?thesis by (simp add: base64_loop_nat_encode)
qed

text \<open>
  C18. Decoding undoes encoding: for every byte string, \<^verbatim>\<open>base64_decode\<close> of its
  RFC 4648 encoding (padding included) is the string itself, however many
  characters the 32-bit accumulator has shifted out.
\<close>

theorem base64_decode_encode: "base64_decode (base64_encode s) = s"
  by (simp add: base64_decode_def base64_loop_encode)

end
