(* ===== verification/Config.thy ===== *)
theory Config
  imports Prelude
begin

text \<open>
  The configuration tree and its printer: \<^verbatim>\<open>NginxConfigStatement\<close>,
  \<^verbatim>\<open>NginxConfig\<close>, their \<^verbatim>\<open>ToString\<close> methods and the token names
  of \<^verbatim>\<open>src/config_parser.{h,cc}\<close>.
\<close>

section \<open>The parsed configuration\<close>

text \<open>
  A statement owns its child block through a \<^verbatim>\<open>unique_ptr\<close>, so the
  configuration is a tree; a null pointer is \<open>None\<close>. The statements of a block are a
  vector of \<^verbatim>\<open>shared_ptr\<close>, each created by the parser and reached from that
  vector only.
\<close>

datatype NginxConfigStatement =
    NginxConfigStatement (tokens: "string list") (child_block: "NginxConfig option")
and NginxConfig =
    NginxConfig (statements: "NginxConfigStatement list")

definition indent :: "int \<Rightarrow> string" where
  "indent depth = concat (replicate (nat depth) ''  '')"

fun join_tokens :: "string list \<Rightarrow> string" where
  "join_tokens [] = []"
| "join_tokens [t] = t"
| "join_tokens (t # ts) = t @ '' '' @ join_tokens ts"

fun NginxConfig_ToString :: "NginxConfig \<Rightarrow> int \<Rightarrow> string"
and NginxConfigStatement_ToString :: "NginxConfigStatement \<Rightarrow> int \<Rightarrow> string" where
  "NginxConfig_ToString (NginxConfig sts) depth =
     concat (map (\<lambda>st. NginxConfigStatement_ToString st depth) sts)"
| "NginxConfigStatement_ToString (NginxConfigStatement ts child) depth =
     indent depth @ join_tokens ts @
     (case child of
        Some block \<Rightarrow> '' {'' @ [CHR 0x0A] @ NginxConfig_ToString block (depth + 1) @ indent depth @ ''}''
      | None \<Rightarrow> '';'') @ [CHR 0x0A]"

section \<open>Token types\<close>

datatype TokenType =
    TOKEN_TYPE_START
  | TOKEN_TYPE_NORMAL
  | TOKEN_TYPE_START_BLOCK
  | TOKEN_TYPE_END_BLOCK
  | TOKEN_TYPE_COMMENT
  | TOKEN_TYPE_STATEMENT_END
  | TOKEN_TYPE_EOF
  | TOKEN_TYPE_ERROR

fun TokenTypeAsString :: "TokenType \<Rightarrow> string" where
  "TokenTypeAsString TOKEN_TYPE_START = ''TOKEN_TYPE_START''"
| "TokenTypeAsString TOKEN_TYPE_NORMAL = ''TOKEN_TYPE_NORMAL''"
| "TokenTypeAsString TOKEN_TYPE_START_BLOCK = ''TOKEN_TYPE_START_BLOCK''"
| "TokenTypeAsString TOKEN_TYPE_END_BLOCK = ''TOKEN_TYPE_END_BLOCK''"
| "TokenTypeAsString TOKEN_TYPE_COMMENT = ''TOKEN_TYPE_COMMENT''"
| "TokenTypeAsString TOKEN_TYPE_STATEMENT_END = ''TOKEN_TYPE_STATEMENT_END''"
| "TokenTypeAsString TOKEN_TYPE_EOF = ''TOKEN_TYPE_EOF''"
| "TokenTypeAsString TOKEN_TYPE_ERROR = ''TOKEN_TYPE_ERROR''"

lemma TokenTypeAsString_inj [simp]: "TokenTypeAsString a = TokenTypeAsString b \<longleftrightarrow> a = b"
  by (cases a; cases b; simp)

section \<open>Well-formed trees\<close>

text \<open>
  What the parser promises to the code that reads the tree without checking
  (\<^verbatim>\<open>tokens_[0]\<close> in \<^verbatim>\<open>get_credentials\<close>, in the dispatcher and in
  \<^verbatim>\<open>registerPath\<close>): every statement, at every depth, has a token.
\<close>

fun wf_config :: "NginxConfig \<Rightarrow> bool"
and wf_statement :: "NginxConfigStatement \<Rightarrow> bool" where
  "wf_config (NginxConfig sts) \<longleftrightarrow> list_all wf_statement sts"
| "wf_statement (NginxConfigStatement ts child) \<longleftrightarrow>
     ts \<noteq> [] \<and> (case child of None \<Rightarrow> True | Some block \<Rightarrow> wf_config block)"

end
