(* ===== verification/Config_Lexer.thy ===== *)
theory Config_Lexer
  imports Config
begin

text \<open>
  The tokenizer, \<^verbatim>\<open>NginxConfigParser::ParseToken\<close> of
  \<^verbatim>\<open>src/config_parser.cc\<close>. The input stream is the list of the characters not
  read yet: \<^verbatim>\<open>get\<close> takes the head, \<^verbatim>\<open>unget\<close> after a successful
  \<^verbatim>\<open>get\<close> puts it back, and \<^verbatim>\<open>good()\<close> fails at the empty list.
\<close>

datatype TokenParserState =
    TOKEN_STATE_INITIAL_WHITESPACE
  | TOKEN_STATE_SINGLE_QUOTE
  | TOKEN_STATE_DOUBLE_QUOTE
  | TOKEN_STATE_TOKEN_TYPE_COMMENT
  | TOKEN_STATE_TOKEN_TYPE_NORMAL
  | TOKEN_STATE_ESCAPE_WITHIN_SINGLE_QUOTE
  | TOKEN_STATE_ESCAPE_WITHIN_DOUBLE_QUOTE

text \<open>
  The characters after which a token ends, in the order of the conditions at lines 123,
  141 and 160: blank, tab, newline, semicolon and the two braces. Carriage return is not
  among them.
\<close>

definition ends_token :: "char \<Rightarrow> bool" where
  "ends_token c \<longleftrightarrow> c = CHR '' '' \<or> c = CHR 0x09 \<or> c = CHR 0x0A \<or> c = CHR '';'' \<or> c = CHR ''{'' \<or> c = CHR ''}''"

text \<open>
  The character after a closing quote: it is put back when it ends the token; any other
  character, or the end of the input, is an error.
\<close>

fun after_quote :: "string \<Rightarrow> string \<Rightarrow> TokenType \<times> string \<times> string" where
  "after_quote value [] = (TOKEN_TYPE_ERROR, value, [])"
| "after_quote value (c_next # input) =
     (if ends_token c_next then (TOKEN_TYPE_NORMAL, value, c_next # input)
      else (TOKEN_TYPE_ERROR, value, input))"

fun ParseToken_loop :: "TokenParserState \<Rightarrow> string \<Rightarrow> string \<Rightarrow> TokenType \<times> string \<times> string" where
  "ParseToken_loop state value [] =
     (if state = TOKEN_STATE_SINGLE_QUOTE \<or> state = TOKEN_STATE_DOUBLE_QUOTE
      then (TOKEN_TYPE_ERROR, value, []) else (TOKEN_TYPE_EOF, value, []))"
| "ParseToken_loop TOKEN_STATE_INITIAL_WHITESPACE value (c # input) =
     (if c = CHR ''{'' then (TOKEN_TYPE_START_BLOCK, [c], input)
      else if c = CHR ''}'' then (TOKEN_TYPE_END_BLOCK, [c], input)
      else if c = CHR ''#'' then ParseToken_loop TOKEN_STATE_TOKEN_TYPE_COMMENT [c] input
      else if c = CHR 0x22 then ParseToken_loop TOKEN_STATE_DOUBLE_QUOTE [c] input
      else if c = CHR 0x27 then ParseToken_loop TOKEN_STATE_SINGLE_QUOTE [c] input
      else if c = CHR '';'' then (TOKEN_TYPE_STATEMENT_END, [c], input)
      else if c = CHR '' '' \<or> c = CHR 0x09 \<or> c = CHR 0x0A \<or> c = CHR 0x0D
        then ParseToken_loop TOKEN_STATE_INITIAL_WHITESPACE value input
      else ParseToken_loop TOKEN_STATE_TOKEN_TYPE_NORMAL (value @ [c]) input)"
| "ParseToken_loop TOKEN_STATE_SINGLE_QUOTE value (c # input) =
     (if c = CHR 0x27 then after_quote (value @ [c]) input
      else if c = CHR 0x5C
        then ParseToken_loop TOKEN_STATE_ESCAPE_WITHIN_SINGLE_QUOTE (butlast (value @ [c])) input
      else ParseToken_loop TOKEN_STATE_SINGLE_QUOTE (value @ [c]) input)"
| "ParseToken_loop TOKEN_STATE_DOUBLE_QUOTE value (c # input) =
     (if c = CHR 0x22 then after_quote (value @ [c]) input
      else if c = CHR 0x5C
        then ParseToken_loop TOKEN_STATE_ESCAPE_WITHIN_DOUBLE_QUOTE (butlast (value @ [c])) input
      else ParseToken_loop TOKEN_STATE_DOUBLE_QUOTE (value @ [c]) input)"
| "ParseToken_loop TOKEN_STATE_TOKEN_TYPE_COMMENT value (c # input) =
     (if c = CHR 0x0A \<or> c = CHR 0x0D then (TOKEN_TYPE_COMMENT, value, input)
      else ParseToken_loop TOKEN_STATE_TOKEN_TYPE_COMMENT (value @ [c]) input)"
| "ParseToken_loop TOKEN_STATE_TOKEN_TYPE_NORMAL value (c # input) =
     (if ends_token c then (TOKEN_TYPE_NORMAL, value, c # input)
      else ParseToken_loop TOKEN_STATE_TOKEN_TYPE_NORMAL (value @ [c]) input)"
| "ParseToken_loop TOKEN_STATE_ESCAPE_WITHIN_SINGLE_QUOTE value (c # input) =
     ParseToken_loop TOKEN_STATE_SINGLE_QUOTE (value @ [c]) input"
| "ParseToken_loop TOKEN_STATE_ESCAPE_WITHIN_DOUBLE_QUOTE value (c # input) =
     ParseToken_loop TOKEN_STATE_DOUBLE_QUOTE (value @ [c]) input"

text \<open>\<^verbatim>\<open>Parse\<close> passes an empty string as \<^verbatim>\<open>value\<close>.\<close>

definition ParseToken :: "string \<Rightarrow> TokenType \<times> string \<times> string" where
  "ParseToken input = ParseToken_loop TOKEN_STATE_INITIAL_WHITESPACE [] input"

section \<open>Progress\<close>

text \<open>
  Every call leaves a suffix of the input, a proper one unless it returns
  \<open>TOKEN_TYPE_EOF\<close> or \<open>TOKEN_TYPE_ERROR\<close>; these two leave \<^verbatim>\<open>Parse\<close>'s
  loop, which therefore ends.
\<close>

lemma after_quote_suffix: "suffix (snd (snd (after_quote v i))) i"
  by (cases i) (simp_all add: suffix_Cons)

lemma ParseToken_loop_suffix: "suffix (snd (snd (ParseToken_loop st v i))) i"
  by (induction st v i rule: ParseToken_loop.induct)
     (simp_all add: suffix_Cons after_quote_suffix)

lemma ParseToken_loop_shorter: "length (snd (snd (ParseToken_loop st v i))) \<le> length i"
  using ParseToken_loop_suffix suffix_length_le by blast

lemma ParseToken_loop_initial_progress:
  "fst (ParseToken_loop TOKEN_STATE_INITIAL_WHITESPACE v i) \<in> {TOKEN_TYPE_EOF, TOKEN_TYPE_ERROR}
   \<or> length (snd (snd (ParseToken_loop TOKEN_STATE_INITIAL_WHITESPACE v i))) < length i"
proof (cases i)
  case (Cons c input)
  have "length (snd (snd (ParseToken_loop st u input))) < length i" for st u
    using ParseToken_loop_shorter [of st u input] Cons by simp
  then show ?thesis by (simp add: Cons)
qed simp

lemma ParseToken_progress:
  assumes "ParseToken i = (ty, v, rest)"
  shows "ty = TOKEN_TYPE_EOF \<or> ty = TOKEN_TYPE_ERROR \<or> length rest < length i"
  using ParseToken_loop_initial_progress [of "[]" i] assms by (simp add: ParseToken_def)

end
