(* ===== verification/Config_Parser.thy ===== *)
theory Config_Parser
  imports Config_Lexer
begin

text \<open>
  \<^verbatim>\<open>NginxConfigParser::Parse(std::istream*, NginxConfig*)\<close> of
  \<^verbatim>\<open>src/config_parser.cc\<close>, with the grammar it accepts.

  The parser builds the tree in place through a stack of pointers. The bottom of the stack
  is the caller's \<^verbatim>\<open>config\<close>, and a pointer is pushed exactly when a fresh block
  has become the child of the last statement of the block on top; statements are only added
  to the block on top. So the pointer at height \<open>n + 1\<close> is always the child block of the
  last statement of the block at height \<open>n\<close>, and a stack is determined by its size:
  \<open>update_top n f\<close> changes the statements of the block on top of a stack of size
  \<open>n\<close>. Following a missing child or reading \<^verbatim>\<open>back()\<close> of an empty vector is a
  fault.
\<close>

section \<open>The parser\<close>

type_synonym statement_list = "NginxConfigStatement list"

fun update_at :: "nat \<Rightarrow> (statement_list \<Rightarrow> statement_list res) \<Rightarrow> NginxConfig \<Rightarrow> NginxConfig res" where
  "update_at 0 f (NginxConfig sts) = bind_res (f sts) (\<lambda>sts'. Inr (NginxConfig sts'))"
| "update_at (Suc d) f (NginxConfig sts) =
     (if sts = [] then Inl Out_Of_Range
      else case child_block (last sts) of
        None \<Rightarrow> Inl Null_Dereference
      | Some block \<Rightarrow>
          bind_res (update_at d f block)
            (\<lambda>block'. Inr (NginxConfig (butlast sts @ [NginxConfigStatement (tokens (last sts)) (Some block')]))))"

definition update_top :: "nat \<Rightarrow> (statement_list \<Rightarrow> statement_list res) \<Rightarrow> NginxConfig \<Rightarrow> NginxConfig res" where
  "update_top stack f config =
     (case stack of 0 \<Rightarrow> Inl Out_Of_Range | Suc d \<Rightarrow> update_at d f config)"

definition emplace_back_statement :: "statement_list \<Rightarrow> statement_list res" where
  "emplace_back_statement sts = Inr (sts @ [NginxConfigStatement [] None])"

definition back_push_token :: "string \<Rightarrow> statement_list \<Rightarrow> statement_list res" where
  "back_push_token token sts =
     (if sts = [] then Inl Out_Of_Range
      else Inr (butlast sts @ [NginxConfigStatement (tokens (last sts) @ [token]) (child_block (last sts))]))"

definition back_reset_child :: "statement_list \<Rightarrow> statement_list res" where
  "back_reset_child sts =
     (if sts = [] then Inl Out_Of_Range
      else Inr (butlast sts @ [NginxConfigStatement (tokens (last sts)) (Some (NginxConfig []))]))"

text \<open>
  One turn of the \<^verbatim>\<open>while (true)\<close> loop, after \<^verbatim>\<open>ParseToken\<close>: go on with
  a new \<^verbatim>\<open>last_token_type\<close>, stack and tree, or leave the loop with the answer.
\<close>

datatype parse_turn =
    Parse_more TokenType nat NginxConfig
  | Parse_done bool NginxConfig

definition Parse_turn :: "TokenType \<Rightarrow> string \<Rightarrow> TokenType \<Rightarrow> nat \<Rightarrow> NginxConfig \<Rightarrow> parse_turn res" where
  "Parse_turn token_type token last_token_type stack config =
     (if token_type = TOKEN_TYPE_ERROR then Inr (Parse_done False config)
      else if token_type = TOKEN_TYPE_COMMENT then Inr (Parse_more last_token_type stack config)
      else if token_type = TOKEN_TYPE_START then Inr (Parse_done False config)
      else if token_type = TOKEN_TYPE_NORMAL then
        (if last_token_type = TOKEN_TYPE_START \<or> last_token_type = TOKEN_TYPE_STATEMENT_END \<or>
            last_token_type = TOKEN_TYPE_START_BLOCK \<or> last_token_type = TOKEN_TYPE_END_BLOCK \<or>
            last_token_type = TOKEN_TYPE_NORMAL
         then
           bind_res
             (if last_token_type \<noteq> TOKEN_TYPE_NORMAL then update_top stack emplace_back_statement config
              else Inr config) (\<lambda>config.
           bind_res (update_top stack (back_push_token token) config) (\<lambda>config.
           Inr (Parse_more token_type stack config)))
         else Inr (Parse_done False config))
      else if token_type = TOKEN_TYPE_STATEMENT_END then
        (if last_token_type \<noteq> TOKEN_TYPE_NORMAL then Inr (Parse_done False config)
         else Inr (Parse_more token_type stack config))
      else if token_type = TOKEN_TYPE_START_BLOCK then
        (if last_token_type \<noteq> TOKEN_TYPE_NORMAL then Inr (Parse_done False config)
         else
           bind_res (update_top stack back_reset_child config) (\<lambda>config.
           Inr (Parse_more token_type (stack + 1) config)))
      else if token_type = TOKEN_TYPE_END_BLOCK then
        (if last_token_type \<noteq> TOKEN_TYPE_STATEMENT_END \<and> last_token_type \<noteq> TOKEN_TYPE_START_BLOCK \<and>
            last_token_type \<noteq> TOKEN_TYPE_END_BLOCK
         then Inr (Parse_done False config)
         else if stack - 1 = 0 then Inr (Parse_done False config)
         else Inr (Parse_more token_type (stack - 1) config))
      else if token_type = TOKEN_TYPE_EOF then
        (if last_token_type \<noteq> TOKEN_TYPE_STATEMENT_END \<and> last_token_type \<noteq> TOKEN_TYPE_END_BLOCK \<and>
            last_token_type \<noteq> TOKEN_TYPE_START
         then Inr (Parse_done False config)
         else if stack > 1 then Inr (Parse_done False config)
         else Inr (Parse_done True config))
      else Inr (Parse_done False config))"

function Parse_loop :: "string \<Rightarrow> TokenType \<Rightarrow> nat \<Rightarrow> NginxConfig \<Rightarrow> (bool \<times> NginxConfig) res" where
  "Parse_loop input last_token_type stack config =
     (case ParseToken input of
        (token_type, token, input') \<Rightarrow>
          (case Parse_turn token_type token last_token_type stack config of
             Inl e \<Rightarrow> Inl e
           | Inr (Parse_done ok config') \<Rightarrow> Inr (ok, config')
           | Inr (Parse_more last' stack' config') \<Rightarrow> Parse_loop input' last' stack' config'))"
  by pat_completeness auto

lemma Parse_turn_more_token:
  "Parse_turn ty v lty stack config = Inr (Parse_more last' stack' config') \<Longrightarrow>
   ty \<noteq> TOKEN_TYPE_EOF \<and> ty \<noteq> TOKEN_TYPE_ERROR"
  by (auto simp: Parse_turn_def split: if_splits)

termination Parse_loop
  by (relation "measure (\<lambda>(input, _, _, _). length input)")
     (use ParseToken_progress Parse_turn_more_token in \<open>auto, metis\<close>)

declare Parse_loop.simps [simp del]

definition Parse :: "string \<Rightarrow> NginxConfig \<Rightarrow> (bool \<times> NginxConfig) res" where
  "Parse config_file config = Parse_loop config_file TOKEN_TYPE_START 1 config"


section \<open>Termination\<close>

text \<open>
  The \<^verbatim>\<open>while (true)\<close> loop with a bound on its turns: \<open>None\<close> when it is still running
  after that many.
\<close>

fun Parse_turns :: "nat \<Rightarrow> string \<Rightarrow> TokenType \<Rightarrow> nat \<Rightarrow> NginxConfig \<Rightarrow> (bool \<times> NginxConfig) res option" where
  "Parse_turns 0 input last_token_type stack config = None"
| "Parse_turns (Suc n) input last_token_type stack config =
     (case ParseToken input of
        (token_type, token, input') \<Rightarrow>
          (case Parse_turn token_type token last_token_type stack config of
             Inl e \<Rightarrow> Some (Inl e)
           | Inr (Parse_done ok config') \<Rightarrow> Some (Inr (ok, config'))
           | Inr (Parse_more last' stack' config') \<Rightarrow> Parse_turns n input' last' stack' config'))"

lemma Parse_turns_enough:
  "length input < n \<Longrightarrow> Parse_turns n input lty stack config = Some (Parse_loop input lty stack config)"
proof (induction n arbitrary: input lty stack config)
  case (Suc n)
  obtain ty v rest where t: "ParseToken input = (ty, v, rest)" by (cases "ParseToken input")
  have "Parse_turns n rest last' stack' config' = Some (Parse_loop rest last' stack' config')"
    if "Parse_turn ty v lty stack config = Inr (Parse_more last' stack' config')" for last' stack' config'
    using Parse_turn_more_token [OF that] ParseToken_progress [OF t] Suc.prems by (intro Suc.IH) auto
  then show ?case
    by (subst Parse_loop.simps) (simp add: t split: sum.split parse_turn.split)
qed simp

text \<open>
  C24. The loop of \<^verbatim>\<open>Parse\<close> ends on every input, whatever the configuration object held
  before: it takes at most one turn, and so one call of \<^verbatim>\<open>ParseToken\<close>, more than the input
  has characters, and every bound from there on gives the same result.
\<close>

theorem Parse_turns_bound:
  "Parse_turns (length input + 1 + extra) input TOKEN_TYPE_START 1 config = Some (Parse input config)"
  by (simp add: Parse_def Parse_turns_enough del: Parse_turns.simps)

end
