(* ===== verification/Config_Grammar.thy ===== *)
theory Config_Grammar
  imports Config_Parser
begin

text \<open>
  What \<^verbatim>\<open>Parse\<close> accepts and what it builds: the token sequence of a configuration
  tree (\<open>config_tokens\<close>) is a grammar of the configuration language, and the parser
  inverts it. The proofs follow the block on top of the parser's stack (\<open>block_at\<close>) and
  the tokens in front of that block (\<open>tokens_before\<close>).
\<close>

section \<open>Token sequences\<close>

type_synonym token = "TokenType \<times> string"

function tokenize :: "string \<Rightarrow> token list" where
  "tokenize i =
     (case ParseToken i of (ty, v, rest) \<Rightarrow>
        if ty = TOKEN_TYPE_EOF \<or> ty = TOKEN_TYPE_ERROR then [(ty, v)] else (ty, v) # tokenize rest)"
  by pat_completeness auto
termination
  by (relation "measure length") (use ParseToken_progress in \<open>auto, metis\<close>)

declare tokenize.simps [simp del]

definition significant :: "token \<Rightarrow> bool" where
  "significant t \<longleftrightarrow> fst t \<noteq> TOKEN_TYPE_COMMENT"

fun config_tokens :: "NginxConfig \<Rightarrow> token list"
and statement_tokens :: "NginxConfigStatement \<Rightarrow> token list" where
  "config_tokens (NginxConfig sts) = concat (map statement_tokens sts)"
| "statement_tokens (NginxConfigStatement ts child) =
     map (Pair TOKEN_TYPE_NORMAL) ts @
     (case child of
        None \<Rightarrow> [(TOKEN_TYPE_STATEMENT_END, '';'')]
      | Some block \<Rightarrow>
          (TOKEN_TYPE_START_BLOCK, ''{'') # config_tokens block @ [(TOKEN_TYPE_END_BLOCK, ''}'')])"

text \<open>The parser run on a token sequence instead of a character stream.\<close>

fun Parse_run :: "token list \<Rightarrow> TokenType \<Rightarrow> nat \<Rightarrow> NginxConfig \<Rightarrow> (bool \<times> NginxConfig) res" where
  "Parse_run [] lty stack config = Inr (False, config)"
| "Parse_run ((ty, v) # ts) lty stack config =
     (case Parse_turn ty v lty stack config of
        Inl e \<Rightarrow> Inl e
      | Inr (Parse_done ok config') \<Rightarrow> Inr (ok, config')
      | Inr (Parse_more lty' stack' config') \<Rightarrow> Parse_run ts lty' stack' config')"

lemma Parse_turn_stops:
  "ty = TOKEN_TYPE_EOF \<or> ty = TOKEN_TYPE_ERROR \<Longrightarrow>
   \<exists>ok. Parse_turn ty v lty stack config = Inr (Parse_done ok config)"
  by (auto simp: Parse_turn_def)

lemma Parse_loop_run: "Parse_loop i lty stack config = Parse_run (tokenize i) lty stack config"
proof (induction i lty stack config rule: Parse_loop.induct)
  case (1 i lty stack config)
  obtain ty v rest where tok: "ParseToken i = (ty, v, rest)" by (metis surj_pair)
  show ?case
  proof (cases "ty = TOKEN_TYPE_EOF \<or> ty = TOKEN_TYPE_ERROR")
    case True
    then obtain ok where "Parse_turn ty v lty stack config = Inr (Parse_done ok config)"
      using Parse_turn_stops by blast
    then show ?thesis using True by (simp add: Parse_loop.simps [of i] tokenize.simps [of i] tok)
  next
    case False
    then show ?thesis
      using "1" [OF tok [symmetric] refl]
      by (simp add: Parse_loop.simps [of i] tokenize.simps [of i] tok split: sum.splits parse_turn.splits)
  qed
qed

lemma Parse_turn_comment [simp]:
  "Parse_turn TOKEN_TYPE_COMMENT v lty stack config = Inr (Parse_more lty stack config)"
  by (simp add: Parse_turn_def)

lemma Parse_run_significant:
  "Parse_run (filter significant ts) lty stack config = Parse_run ts lty stack config"
proof (induction ts arbitrary: lty stack config)
  case (Cons t ts)
  then show ?case
    by (cases t; cases "fst t = TOKEN_TYPE_COMMENT")
       (auto simp: significant_def split: sum.splits parse_turn.splits)
qed simp

section \<open>The block on top of the stack\<close>

fun block_at :: "nat \<Rightarrow> NginxConfig \<Rightarrow> statement_list option" where
  "block_at 0 (NginxConfig sts) = Some sts"
| "block_at (Suc d) (NginxConfig sts) =
     (if sts = [] then None
      else case child_block (last sts) of None \<Rightarrow> None | Some block \<Rightarrow> block_at d block)"

fun tokens_before :: "nat \<Rightarrow> NginxConfig \<Rightarrow> token list" where
  "tokens_before 0 config = []"
| "tokens_before (Suc d) (NginxConfig sts) =
     config_tokens (NginxConfig (butlast sts)) @
     map (Pair TOKEN_TYPE_NORMAL) (tokens (last sts)) @
     (TOKEN_TYPE_START_BLOCK, ''{'') #
     (case child_block (last sts) of None \<Rightarrow> [] | Some block \<Rightarrow> tokens_before d block)"

lemma update_at_block:
  assumes "block_at d config = Some sts" and "f sts = Inr sts'"
  shows "\<exists>config'. update_at d f config = Inr config' \<and> block_at d config' = Some sts'
           \<and> tokens_before d config' = tokens_before d config"
  using assms
proof (induction d f config arbitrary: sts rule: update_at.induct)
  case (2 d f sts0)
  then show ?case by (fastforce split: option.splits if_splits)
qed simp

lemma update_at_wf:
  assumes "block_at d config = Some sts" and "f sts = Inr sts'" and "list_all wf_statement sts'"
    and "wf_config config" and "update_at d f config = Inr config'"
  shows "wf_config config'"
  using assms
proof (induction d f config arbitrary: sts config' rule: update_at.induct)
  case (2 d f sts0)
  then obtain block block' where b: "sts0 \<noteq> []" "child_block (last sts0) = Some block"
      "update_at d f block = Inr block'" "block_at d block = Some sts"
      "config' = NginxConfig (butlast sts0 @ [NginxConfigStatement (tokens (last sts0)) (Some block')])"
    by (auto split: option.splits if_splits simp: bind_res_eq_Inr_iff)
  have "wf_statement (last sts0)"
    using "2.prems"(4) b(1) by (auto simp: list_all_iff)
  then have "tokens (last sts0) \<noteq> []" "wf_config block"
    using b(2) by (cases "last sts0"; simp)+
  moreover have "wf_config block'"
    using "2.IH" [OF b(1,2)] b(3,4) "2.prems"(2,3) \<open>wf_config block\<close> by blast
  ultimately show ?case
    using "2.prems"(4) b(5) by (auto simp: list_all_iff dest: in_set_butlastD)
qed auto

lemma block_at_wf: "block_at d config = Some sts \<Longrightarrow> wf_config config \<Longrightarrow> list_all wf_statement sts"
proof (induction d config arbitrary: sts rule: block_at.induct)
  case (2 d sts0)
  then obtain block where b: "sts0 \<noteq> []" "child_block (last sts0) = Some block" "block_at d block = Some sts"
    by (auto split: option.splits if_splits)
  have "wf_statement (last sts0)"
    using "2.prems"(2) b(1) by (auto simp: list_all_iff)
  then have "wf_config block" using b(2) by (cases "last sts0") simp
  then show ?case using "2.IH" b by blast
qed simp

lemma update_at_ok:
  assumes "block_at d config = Some sts" and "f sts = Inr sts'"
    and "wf_config config" and "list_all wf_statement sts'"
  obtains config' where "update_at d f config = Inr config'" and "block_at d config' = Some sts'"
    and "tokens_before d config' = tokens_before d config" and "wf_config config'"
  using update_at_block [of d config sts f sts'] update_at_wf [of d config sts f sts'] assms by metis

lemma update_at_fuse:
  "bind_res (update_at d f config) (update_at d g) = update_at d (\<lambda>sts. bind_res (f sts) g) config"
proof (induction d f config rule: update_at.induct)
  case (1 f sts)
  show ?case by (cases "f sts") auto
next
  case (2 d f sts)
  show ?case
  proof (cases "sts = [] \<or> child_block (last sts) = None")
    case False
    then obtain block where b: "sts \<noteq> []" "child_block (last sts) = Some block" by auto
    show ?thesis
      using "2" [OF b] b by (cases "update_at d f block") (auto simp: bind_res_def split: sum.splits)
  qed auto
qed

definition back_child :: "(statement_list \<Rightarrow> statement_list res) \<Rightarrow> statement_list \<Rightarrow> statement_list res" where
  "back_child f sts =
     (if sts = [] then Inl Out_Of_Range
      else case child_block (last sts) of
        None \<Rightarrow> Inl Null_Dereference
      | Some block \<Rightarrow>
          bind_res (f (statements block))
            (\<lambda>sub. Inr (butlast sts @ [NginxConfigStatement (tokens (last sts)) (Some (NginxConfig sub))])))"

lemma block_at_Suc:
  "block_at (Suc d) config = Some sub \<longleftrightarrow>
   (\<exists>sts. block_at d config = Some sts \<and> sts \<noteq> [] \<and> child_block (last sts) = Some (NginxConfig sub))"
proof (induction d config rule: block_at.induct)
  case (1 sts)
  then show ?case by (auto split: option.splits) (metis NginxConfig.exhaust block_at.simps(1) option.inject)
next
  case (2 d sts)
  then show ?case by (auto split: option.splits)
qed

lemma tokens_before_Suc:
  assumes "block_at d config = Some sts" and "sts \<noteq> []" and "child_block (last sts) = Some block"
  shows "tokens_before (Suc d) config = tokens_before d config @ config_tokens (NginxConfig (butlast sts)) @
           map (Pair TOKEN_TYPE_NORMAL) (tokens (last sts)) @ [(TOKEN_TYPE_START_BLOCK, ''{'')]"
  using assms
proof (induction d config rule: block_at.induct)
  case (2 d sts0)
  then show ?case by (auto split: option.splits if_splits)
qed simp

section \<open>Tokens consumed so far\<close>

text \<open>
  Between two turns the tree holds exactly the tokens read so far: those before the block on
  top, and those of that block, whose last statement is still open when the last token was a
  \<open>TOKEN_TYPE_NORMAL\<close>.
\<close>

definition block_tokens :: "TokenType \<Rightarrow> statement_list \<Rightarrow> token list" where
  "block_tokens lty sts =
     (if lty = TOKEN_TYPE_NORMAL
      then config_tokens (NginxConfig (butlast sts)) @ map (Pair TOKEN_TYPE_NORMAL) (tokens (last sts))
      else config_tokens (NginxConfig sts))"

definition turn_inv :: "token list \<Rightarrow> TokenType \<Rightarrow> nat \<Rightarrow> NginxConfig \<Rightarrow> bool" where
  "turn_inv consumed lty stack config \<longleftrightarrow>
     wf_config config \<and> lty \<notin> {TOKEN_TYPE_COMMENT, TOKEN_TYPE_EOF, TOKEN_TYPE_ERROR} \<and>
     (\<exists>d sts. stack = Suc d \<and> block_at d config = Some sts \<and>
        (lty = TOKEN_TYPE_NORMAL \<longrightarrow> sts \<noteq> [] \<and> child_block (last sts) = None) \<and>
        consumed = tokens_before d config @ block_tokens lty sts)"

text \<open>The text of a punctuation token is the character itself.\<close>

definition canonical :: "token \<Rightarrow> bool" where
  "canonical t \<longleftrightarrow>
     (fst t = TOKEN_TYPE_STATEMENT_END \<longrightarrow> snd t = '';'') \<and>
     (fst t = TOKEN_TYPE_START_BLOCK \<longrightarrow> snd t = ''{'') \<and>
     (fst t = TOKEN_TYPE_END_BLOCK \<longrightarrow> snd t = ''}'')"

lemma after_quote_canonical: "canonical (fst (after_quote v i), w)"
  by (cases i) (simp_all add: canonical_def)

lemma ParseToken_loop_canonical:
  "canonical (fst (ParseToken_loop st v i), fst (snd (ParseToken_loop st v i)))"
  by (induction st v i rule: ParseToken_loop.induct)
     (simp_all add: after_quote_canonical, simp_all add: canonical_def)

lemma tokenize_canonical: "list_all canonical (tokenize i)"
proof (induction i rule: tokenize.induct)
  case (1 i)
  obtain ty v rest where tok: "ParseToken i = (ty, v, rest)" by (metis surj_pair)
  then have "canonical (ty, v)"
    using ParseToken_loop_canonical [of TOKEN_STATE_INITIAL_WHITESPACE "[]" i]
    by (simp add: ParseToken_def)
  then show ?case
    using "1" [OF tok [symmetric] refl] by (simp add: tokenize.simps [of i] tok)
qed

lemma turn_inv_initial: "wf_config config \<Longrightarrow> turn_inv (config_tokens config) TOKEN_TYPE_START 1 config"
  by (cases config) (simp add: turn_inv_def block_tokens_def)

lemma statement_tokens_snoc:
  "sts \<noteq> [] \<Longrightarrow>
   config_tokens (NginxConfig sts) = config_tokens (NginxConfig (butlast sts)) @ statement_tokens (last sts)"
  by (metis (no_types, lifting) append_butlast_last_id append_Nil2 concat.simps config_tokens.simps(1)
      concat_append list.simps(8,9) map_append)

section \<open>Every turn keeps the invariant\<close>

text \<open>
  The form of a turn that does not fault: the loop is left with a well-formed tree, and with
  \<^verbatim>\<open>true\<close> only at the end of the input when the tree holds all tokens read; or
  the loop goes on and the token has been added.
\<close>

definition turn_ok :: "token list \<Rightarrow> token \<Rightarrow> parse_turn res \<Rightarrow> bool" where
  "turn_ok consumed t r =
     (case r of
        Inl e \<Rightarrow> False
      | Inr (Parse_done ok config) \<Rightarrow>
          wf_config config \<and> (ok \<longrightarrow> fst t = TOKEN_TYPE_EOF \<and> config_tokens config = consumed)
      | Inr (Parse_more lty stack config) \<Rightarrow>
          turn_inv (consumed @ filter significant [t]) lty stack config)"

lemma turn_ok_normal_first:
  assumes inv: "turn_inv consumed lty stack config" and lty: "lty \<noteq> TOKEN_TYPE_NORMAL"
  shows "turn_ok consumed (TOKEN_TYPE_NORMAL, v) (Parse_turn TOKEN_TYPE_NORMAL v lty stack config)"
proof -
  from inv lty obtain d sts where st: "stack = Suc d" "block_at d config = Some sts" "wf_config config"
    and cons: "consumed = tokens_before d config @ config_tokens (NginxConfig sts)"
    by (auto simp: turn_inv_def block_tokens_def)
  let ?f = "\<lambda>xs. bind_res (emplace_back_statement xs) (back_push_token v)"
  have wf: "list_all wf_statement (sts @ [NginxConfigStatement [v] None])"
    using block_at_wf [OF st(2,3)] by simp
  obtain c where c: "update_at d ?f config = Inr c"
      "block_at d c = Some (sts @ [NginxConfigStatement [v] None])"
      "tokens_before d c = tokens_before d config" "wf_config c"
    by (rule update_at_ok [where f = ?f, OF st(2) _ st(3) wf])
       (auto simp: emplace_back_statement_def back_push_token_def)
  then have "turn_inv (consumed @ [(TOKEN_TYPE_NORMAL, v)]) TOKEN_TYPE_NORMAL stack c"
    by (simp add: turn_inv_def st(1) cons block_tokens_def)
  moreover have "Parse_turn TOKEN_TYPE_NORMAL v lty stack config = Inr (Parse_more TOKEN_TYPE_NORMAL stack c)"
    using inv lty update_at_fuse [of d emplace_back_statement config "back_push_token v"] c(1)
    by (cases lty) (auto simp: Parse_turn_def turn_inv_def update_top_def st(1) bind_res_eq_Inr_iff)
  ultimately show ?thesis by (simp add: turn_ok_def significant_def)
qed

lemma turn_ok_normal_more:
  assumes inv: "turn_inv consumed TOKEN_TYPE_NORMAL stack config"
  shows "turn_ok consumed (TOKEN_TYPE_NORMAL, v) (Parse_turn TOKEN_TYPE_NORMAL v TOKEN_TYPE_NORMAL stack config)"
proof -
  from inv obtain d sts where st: "stack = Suc d" "block_at d config = Some sts" "wf_config config"
      "sts \<noteq> []" "child_block (last sts) = None"
    and cons: "consumed = tokens_before d config @ block_tokens TOKEN_TYPE_NORMAL sts"
    by (auto simp: turn_inv_def)
  let ?sts = "butlast sts @ [NginxConfigStatement (tokens (last sts) @ [v]) None]"
  have wf: "list_all wf_statement ?sts"
    using block_at_wf [OF st(2,3)] by (auto simp: list_all_iff dest: in_set_butlastD)
  obtain c where c: "update_at d (back_push_token v) config = Inr c" "block_at d c = Some ?sts"
      "tokens_before d c = tokens_before d config" "wf_config c"
    by (rule update_at_ok [where f = "back_push_token v", OF st(2) _ st(3) wf])
       (use st in \<open>auto simp: back_push_token_def\<close>)
  then show ?thesis
    by (simp add: Parse_turn_def update_top_def turn_ok_def significant_def turn_inv_def block_tokens_def
        st(1) cons)
qed

lemma turn_ok_start_block:
  assumes inv: "turn_inv consumed TOKEN_TYPE_NORMAL stack config"
  shows "turn_ok consumed (TOKEN_TYPE_START_BLOCK, ''{'')
           (Parse_turn TOKEN_TYPE_START_BLOCK v TOKEN_TYPE_NORMAL stack config)"
proof -
  from inv obtain d sts where st: "stack = Suc d" "block_at d config = Some sts" "wf_config config"
      "sts \<noteq> []" "child_block (last sts) = None"
    and cons: "consumed = tokens_before d config @ block_tokens TOKEN_TYPE_NORMAL sts"
    by (auto simp: turn_inv_def)
  let ?sts = "butlast sts @ [NginxConfigStatement (tokens (last sts)) (Some (NginxConfig []))]"
  have wf0: "list_all wf_statement sts" by (rule block_at_wf [OF st(2,3)])
  then have "wf_statement (last sts)" using st(4) by (simp add: list_all_iff)
  then have "tokens (last sts) \<noteq> []" by (cases "last sts") simp
  then have wf: "list_all wf_statement ?sts"
    using wf0 by (auto simp: list_all_iff dest: in_set_butlastD)
  obtain c where c: "update_at d back_reset_child config = Inr c" "block_at d c = Some ?sts"
      "tokens_before d c = tokens_before d config" "wf_config c"
    by (rule update_at_ok [where f = back_reset_child, OF st(2) _ st(3) wf])
       (use st in \<open>auto simp: back_reset_child_def\<close>)
  have "block_at (Suc d) c = Some []" using c(2) by (simp add: block_at_Suc)
  moreover have "tokens_before (Suc d) c = consumed @ [(TOKEN_TYPE_START_BLOCK, ''{'')]"
    using tokens_before_Suc [OF c(2)] c(3) by (simp add: cons block_tokens_def)
  ultimately show ?thesis
    using c(1,4) by (simp add: Parse_turn_def update_top_def turn_ok_def significant_def turn_inv_def
        block_tokens_def st(1) del: block_at.simps tokens_before.simps)
qed

lemma turn_ok_statement_end:
  assumes inv: "turn_inv consumed TOKEN_TYPE_NORMAL stack config"
  shows "turn_ok consumed (TOKEN_TYPE_STATEMENT_END, '';'')
           (Parse_turn TOKEN_TYPE_STATEMENT_END v TOKEN_TYPE_NORMAL stack config)"
proof -
  from inv obtain d sts where st: "stack = Suc d" "block_at d config = Some sts" "wf_config config"
      "sts \<noteq> []" "child_block (last sts) = None"
    and cons: "consumed = tokens_before d config @ block_tokens TOKEN_TYPE_NORMAL sts"
    by (auto simp: turn_inv_def)
  have "statement_tokens (last sts) =
      map (Pair TOKEN_TYPE_NORMAL) (tokens (last sts)) @ [(TOKEN_TYPE_STATEMENT_END, '';'')]"
    using st(5) by (cases "last sts") simp
  then show ?thesis
    using st by (simp add: Parse_turn_def turn_ok_def significant_def turn_inv_def block_tokens_def cons
        statement_tokens_snoc del: config_tokens.simps)
qed

lemma turn_ok_end_block:
  assumes inv: "turn_inv consumed lty stack config" and lty: "lty \<noteq> TOKEN_TYPE_NORMAL"
  shows "turn_ok consumed (TOKEN_TYPE_END_BLOCK, ''}'') (Parse_turn TOKEN_TYPE_END_BLOCK v lty stack config)"
proof -
  from inv lty obtain d sts where st: "stack = Suc d" "block_at d config = Some sts" "wf_config config"
    and cons: "consumed = tokens_before d config @ config_tokens (NginxConfig sts)"
    by (auto simp: turn_inv_def block_tokens_def)
  show ?thesis
  proof (cases d)
    case 0
    then show ?thesis using st by (simp add: Parse_turn_def turn_ok_def)
  next
    case (Suc d')
    with st(2) obtain outer where o: "block_at d' config = Some outer" "outer \<noteq> []"
        "child_block (last outer) = Some (NginxConfig sts)"
      using block_at_Suc by metis
    have "statement_tokens (last outer) = map (Pair TOKEN_TYPE_NORMAL) (tokens (last outer)) @
        (TOKEN_TYPE_START_BLOCK, ''{'') # config_tokens (NginxConfig sts) @ [(TOKEN_TYPE_END_BLOCK, ''}'')]"
      using o(3) by (cases "last outer") simp
    then have "consumed @ [(TOKEN_TYPE_END_BLOCK, ''}'')] =
        tokens_before d' config @ config_tokens (NginxConfig outer)"
      using tokens_before_Suc [OF o] Suc
      by (simp add: cons statement_tokens_snoc [OF o(2)] del: config_tokens.simps)
    then show ?thesis
      using st Suc o(1)
      by (simp add: Parse_turn_def turn_ok_def significant_def turn_inv_def block_tokens_def)
  qed
qed

lemma turn_ok_eof:
  assumes inv: "turn_inv consumed lty stack config"
  shows "turn_ok consumed (TOKEN_TYPE_EOF, v) (Parse_turn TOKEN_TYPE_EOF v lty stack config)"
proof -
  from inv obtain d sts where "stack = Suc d" "block_at d config = Some sts" "wf_config config"
    "consumed = tokens_before d config @ block_tokens lty sts"
    by (auto simp: turn_inv_def)
  then show ?thesis
    by (cases config; cases d) (auto simp: Parse_turn_def turn_ok_def block_tokens_def)
qed

lemma turn_ok_rejected:
  assumes "turn_inv consumed lty stack config" and "lty \<noteq> TOKEN_TYPE_NORMAL"
    and "ty = TOKEN_TYPE_STATEMENT_END \<or> ty = TOKEN_TYPE_START_BLOCK"
  shows "turn_ok consumed t (Parse_turn ty v lty stack config)"
  using assms by (auto simp: Parse_turn_def turn_ok_def turn_inv_def)

lemma turn_ok_end_block_rejected:
  assumes "turn_inv consumed TOKEN_TYPE_NORMAL stack config"
  shows "turn_ok consumed t (Parse_turn TOKEN_TYPE_END_BLOCK v TOKEN_TYPE_NORMAL stack config)"
  using assms by (auto simp: Parse_turn_def turn_ok_def turn_inv_def)

theorem turn_ok_step:
  assumes inv: "turn_inv consumed lty stack config" and can: "canonical (ty, v)"
  shows "turn_ok consumed (ty, v) (Parse_turn ty v lty stack config)"
proof (cases ty)
  case TOKEN_TYPE_NORMAL
  with inv show ?thesis
    by (cases "lty = TOKEN_TYPE_NORMAL") (simp_all add: turn_ok_normal_first turn_ok_normal_more)
next
  case TOKEN_TYPE_STATEMENT_END
  with inv can show ?thesis
    by (cases "lty = TOKEN_TYPE_NORMAL") (auto simp: canonical_def turn_ok_rejected turn_ok_statement_end)
next
  case TOKEN_TYPE_START_BLOCK
  with inv can show ?thesis
    by (cases "lty = TOKEN_TYPE_NORMAL") (auto simp: canonical_def turn_ok_rejected turn_ok_start_block)
next
  case TOKEN_TYPE_END_BLOCK
  with inv can show ?thesis
    by (cases "lty = TOKEN_TYPE_NORMAL") (auto simp: canonical_def turn_ok_end_block turn_ok_end_block_rejected)
next
  case TOKEN_TYPE_EOF
  with inv show ?thesis by (simp add: turn_ok_eof)
qed (use inv in \<open>auto simp: Parse_turn_def turn_ok_def turn_inv_def significant_def\<close>)

section \<open>Soundness: an accepted input is a printed tree\<close>

lemma Parse_run_inv:
  assumes "turn_inv consumed lty stack config" and "list_all canonical ts"
  shows "\<exists>ok config'. Parse_run ts lty stack config = Inr (ok, config') \<and> wf_config config' \<and>
    (ok \<longrightarrow> (\<exists>X v rest. filter significant ts = X @ (TOKEN_TYPE_EOF, v) # rest \<and>
                      config_tokens config' = consumed @ X))"
  using assms
proof (induction ts arbitrary: consumed lty stack config)
  case Nil
  then show ?case by (auto simp: turn_inv_def)
next
  case (Cons t ts)
  obtain ty v where t: "t = (ty, v)" by (cases t)
  have ok: "turn_ok consumed (ty, v) (Parse_turn ty v lty stack config)"
    using Cons.prems by (intro turn_ok_step) (auto simp: t)
  show ?case
  proof (cases "Parse_turn ty v lty stack config")
    case (Inl e)
    with ok show ?thesis by (simp add: turn_ok_def)
  next
    case (Inr r)
    show ?thesis
    proof (cases r)
      case (Parse_done b c)
      with Inr ok show ?thesis
        by (cases b) (auto simp: t turn_ok_def significant_def intro: exI [of _ "[]"])
    next
      case (Parse_more lty' stack' c)
      with Inr ok have "turn_inv (consumed @ filter significant [(ty, v)]) lty' stack' c"
        by (simp add: turn_ok_def)
      from Cons.IH [OF this] Cons.prems(2) Inr Parse_more show ?thesis
        by (auto simp: t split: if_splits)
    qed
  qed
qed

lemma tokenize_shape:
  "\<exists>ts t. tokenize i = ts @ [t] \<and> fst t \<in> {TOKEN_TYPE_EOF, TOKEN_TYPE_ERROR} \<and>
          (\<forall>u\<in>set ts. fst u \<notin> {TOKEN_TYPE_EOF, TOKEN_TYPE_ERROR})"
proof (induction i rule: tokenize.induct)
  case (1 i)
  obtain ty v rest where tok: "ParseToken i = (ty, v, rest)" by (metis surj_pair)
  show ?case
  proof (cases "ty = TOKEN_TYPE_EOF \<or> ty = TOKEN_TYPE_ERROR")
    case True
    then show ?thesis by (auto simp: tokenize.simps [of i] tok)
  next
    case False
    with "1" [OF tok [symmetric] refl] obtain ts t where
      "tokenize rest = ts @ [t]" "fst t \<in> {TOKEN_TYPE_EOF, TOKEN_TYPE_ERROR}"
      "\<forall>u\<in>set ts. fst u \<notin> {TOKEN_TYPE_EOF, TOKEN_TYPE_ERROR}" by blast
    with False show ?thesis
      by (intro exI [of _ "(ty, v) # ts"] exI [of _ t]) (simp add: tokenize.simps [of i] tok)
  qed
qed

lemma tokenize_eof_last:
  assumes "filter significant (tokenize i) = X @ (TOKEN_TYPE_EOF, v) # rest"
  shows "rest = []"
proof (rule ccontr)
  assume "rest \<noteq> []"
  obtain ts t where sh: "tokenize i = ts @ [t]" "fst t \<in> {TOKEN_TYPE_EOF, TOKEN_TYPE_ERROR}"
      "\<forall>u\<in>set ts. fst u \<notin> {TOKEN_TYPE_EOF, TOKEN_TYPE_ERROR}"
    using tokenize_shape by blast
  have "filter significant ts @ [t] = (X @ (TOKEN_TYPE_EOF, v) # butlast rest) @ [last rest]"
    using assms sh(1,2) \<open>rest \<noteq> []\<close> by (auto simp: significant_def)
  then have "(TOKEN_TYPE_EOF, v) \<in> set ts"
    by (metis append1_eq_conv filter_is_subset in_set_conv_decomp subsetD)
  with sh(3) show False by force
qed

section \<open>Completeness: a printed tree is accepted and rebuilt\<close>

fun set_at :: "nat \<Rightarrow> statement_list \<Rightarrow> NginxConfig \<Rightarrow> NginxConfig" where
  "set_at 0 new config = NginxConfig new"
| "set_at (Suc d) new (NginxConfig sts) =
     NginxConfig (butlast sts @
       [NginxConfigStatement (tokens (last sts)) (map_option (set_at d new) (child_block (last sts)))])"

lemma update_at_set_at:
  "block_at d config = Some sts \<Longrightarrow> f sts = Inr new \<Longrightarrow> update_at d f config = Inr (set_at d new config)"
  by (induction d f config arbitrary: sts rule: update_at.induct) (auto split: option.splits if_splits)

lemma block_at_set_at [simp]:
  "block_at d config = Some sts \<Longrightarrow> block_at d (set_at d new config) = Some new"
  by (induction d config arbitrary: sts rule: block_at.induct) (auto split: option.splits if_splits)

lemma set_at_set_at [simp]: "set_at d new (set_at d old config) = set_at d new config"
proof (induction d old config rule: set_at.induct)
  case (2 d old sts)
  then show ?case by (cases "child_block (last sts)") simp_all
qed simp

lemma set_at_same: "block_at d config = Some sts \<Longrightarrow> set_at d sts config = config"
proof (induction d config arbitrary: sts rule: block_at.induct)
  case (2 d sts0)
  then show ?case
    by (auto split: option.splits if_splits)
       (metis NginxConfigStatement.collapse append_butlast_last_id)
qed simp

lemma set_at_Suc:
  assumes "block_at d config = Some old"
  shows "set_at (Suc d) sub (set_at d (xs @ [NginxConfigStatement ts (Some block)]) config) =
         set_at d (xs @ [NginxConfigStatement ts (Some (NginxConfig sub))]) config"
  using assms
  by (induction d config arbitrary: old rule: block_at.induct) (auto split: option.splits if_splits)

definition between_statements :: "TokenType \<Rightarrow> bool" where
  "between_statements lty \<longleftrightarrow>
     lty \<in> {TOKEN_TYPE_START, TOKEN_TYPE_STATEMENT_END, TOKEN_TYPE_START_BLOCK, TOKEN_TYPE_END_BLOCK}"

lemma Parse_run_more_tokens:
  assumes "block_at d config = Some (xs @ [NginxConfigStatement ts0 None])"
  shows "Parse_run (map (Pair TOKEN_TYPE_NORMAL) ts @ rest) TOKEN_TYPE_NORMAL (Suc d) config =
         Parse_run rest TOKEN_TYPE_NORMAL (Suc d) (set_at d (xs @ [NginxConfigStatement (ts0 @ ts) None]) config)"
  using assms
proof (induction ts arbitrary: ts0 config)
  case Nil
  then show ?case by (simp add: set_at_same)
next
  case (Cons t ts)
  let ?c = "set_at d (xs @ [NginxConfigStatement (ts0 @ [t]) None]) config"
  have "Parse_turn TOKEN_TYPE_NORMAL t TOKEN_TYPE_NORMAL (Suc d) config =
      Inr (Parse_more TOKEN_TYPE_NORMAL (Suc d) ?c)"
    using update_at_set_at [OF Cons.prems, of "back_push_token t"]
    by (simp add: Parse_turn_def update_top_def back_push_token_def)
  then show ?case using Cons.IH [of ?c "ts0 @ [t]"] Cons.prems by simp
qed

lemma Parse_run_statement_head:
  assumes "block_at d config = Some xs" and "between_statements lty" and "ts \<noteq> []"
  shows "Parse_run (map (Pair TOKEN_TYPE_NORMAL) ts @ rest) lty (Suc d) config =
         Parse_run rest TOKEN_TYPE_NORMAL (Suc d) (set_at d (xs @ [NginxConfigStatement ts None]) config)"
proof -
  obtain t us where ts: "ts = t # us" using assms(3) by (cases ts) auto
  let ?c1 = "set_at d (xs @ [NginxConfigStatement [] None]) config"
  let ?c2 = "set_at d (xs @ [NginxConfigStatement [t] None]) config"
  have "update_at d emplace_back_statement config = Inr ?c1"
    using update_at_set_at [OF assms(1), of emplace_back_statement] by (simp add: emplace_back_statement_def)
  moreover have "update_at d (back_push_token t) ?c1 = Inr ?c2"
    using update_at_set_at [OF block_at_set_at [OF assms(1)], of "back_push_token t"]
    by (simp add: back_push_token_def)
  ultimately have "Parse_turn TOKEN_TYPE_NORMAL t lty (Suc d) config = Inr (Parse_more TOKEN_TYPE_NORMAL (Suc d) ?c2)"
    using assms(2) by (auto simp: Parse_turn_def update_top_def between_statements_def)
  then show ?thesis
    using Parse_run_more_tokens [OF block_at_set_at [OF assms(1)], where ?ts0.0 = "[t]" and ts = us]
    by (simp add: ts)
qed

text \<open>
  A statement, or a block, is read in any surroundings: its tokens leave the parser between
  statements again, with the statement or the block appended to the block on top of the stack.
\<close>

definition reads_statement :: "NginxConfigStatement \<Rightarrow> bool" where
  "reads_statement st \<longleftrightarrow> (\<forall>d config xs lty rest. block_at d config = Some xs \<longrightarrow> between_statements lty \<longrightarrow>
     (\<exists>lty'\<in>{TOKEN_TYPE_STATEMENT_END, TOKEN_TYPE_END_BLOCK}.
        Parse_run (statement_tokens st @ rest) lty (Suc d) config =
        Parse_run rest lty' (Suc d) (set_at d (xs @ [st]) config)))"

definition reads_config :: "NginxConfig \<Rightarrow> bool" where
  "reads_config cfg \<longleftrightarrow> (\<forall>d config xs lty rest. block_at d config = Some xs \<longrightarrow> between_statements lty \<longrightarrow>
     (\<exists>lty'\<in>{lty, TOKEN_TYPE_STATEMENT_END, TOKEN_TYPE_END_BLOCK}.
        Parse_run (config_tokens cfg @ rest) lty (Suc d) config =
        Parse_run rest lty' (Suc d) (set_at d (xs @ statements cfg) config)))"

lemma reads_statementD:
  "reads_statement st \<Longrightarrow> block_at d config = Some xs \<Longrightarrow> between_statements lty \<Longrightarrow>
   \<exists>lty'\<in>{TOKEN_TYPE_STATEMENT_END, TOKEN_TYPE_END_BLOCK}.
     Parse_run (statement_tokens st @ rest) lty (Suc d) config = Parse_run rest lty' (Suc d) (set_at d (xs @ [st]) config)"
  unfolding reads_statement_def by iprover

lemma reads_configD:
  "reads_config cfg \<Longrightarrow> block_at d config = Some xs \<Longrightarrow> between_statements lty \<Longrightarrow>
   \<exists>lty'\<in>{lty, TOKEN_TYPE_STATEMENT_END, TOKEN_TYPE_END_BLOCK}.
     Parse_run (config_tokens cfg @ rest) lty (Suc d) config =
     Parse_run rest lty' (Suc d) (set_at d (xs @ statements cfg) config)"
  unfolding reads_config_def by iprover

lemma reads_config_statements:
  assumes "\<forall>st\<in>set sts. reads_statement st"
  shows "reads_config (NginxConfig sts)"
  using assms
proof (induction sts)
  case Nil
  then show ?case by (simp add: reads_config_def set_at_same)
next
  case (Cons st sts)
  show ?case unfolding reads_config_def
  proof (intro allI impI)
    fix d config xs lty rest
    assume blk: "block_at d config = Some xs" and lty: "between_statements lty"
    let ?c = "set_at d (xs @ [st]) config" and ?tail = "config_tokens (NginxConfig sts) @ rest"
    obtain lty1 where l1: "lty1 \<in> {TOKEN_TYPE_STATEMENT_END, TOKEN_TYPE_END_BLOCK}"
      and r1: "Parse_run (statement_tokens st @ ?tail) lty (Suc d) config = Parse_run ?tail lty1 (Suc d) ?c"
      using reads_statementD [OF _ blk lty, of st ?tail] Cons.prems by auto
    have "between_statements lty1" using l1 by (auto simp: between_statements_def)
    then have "\<exists>lty'\<in>{lty1, TOKEN_TYPE_STATEMENT_END, TOKEN_TYPE_END_BLOCK}.
        Parse_run ?tail lty1 (Suc d) ?c = Parse_run rest lty' (Suc d) (set_at d ((xs @ [st]) @ sts) ?c)"
      using reads_configD [OF Cons.IH block_at_set_at [OF blk, of "xs @ [st]"], of lty1 rest] Cons.prems by simp
    with l1 r1 show "\<exists>lty'\<in>{lty, TOKEN_TYPE_STATEMENT_END, TOKEN_TYPE_END_BLOCK}.
        Parse_run (config_tokens (NginxConfig (st # sts)) @ rest) lty (Suc d) config =
        Parse_run rest lty' (Suc d) (set_at d (xs @ statements (NginxConfig (st # sts))) config)"
      by auto
  qed
qed

lemma reads_statement_leaf:
  assumes "ts \<noteq> []"
  shows "reads_statement (NginxConfigStatement ts None)"
  using Parse_run_statement_head [OF _ _ assms] by (simp add: reads_statement_def Parse_turn_def)

lemma reads_statement_block:
  assumes ts: "ts \<noteq> []" and block: "reads_config block"
  shows "reads_statement (NginxConfigStatement ts (Some block))"
  unfolding reads_statement_def
proof (intro allI impI)
  fix d config xs lty rest
  assume blk: "block_at d config = Some xs" and lty: "between_statements lty"
  obtain sub where sub: "block = NginxConfig sub" by (cases block)
  let ?c = "set_at d (xs @ [NginxConfigStatement ts None]) config"
  let ?c' = "set_at d (xs @ [NginxConfigStatement ts (Some (NginxConfig []))]) config"
  let ?close = "(TOKEN_TYPE_END_BLOCK, ''}'') # rest"
  have opened: "Parse_turn TOKEN_TYPE_START_BLOCK ''{'' TOKEN_TYPE_NORMAL (Suc d) ?c =
      Inr (Parse_more TOKEN_TYPE_START_BLOCK (Suc (Suc d)) ?c')"
    using update_at_set_at [OF block_at_set_at [OF blk, of "xs @ [NginxConfigStatement ts None]"], of back_reset_child]
    by (simp add: Parse_turn_def update_top_def back_reset_child_def)
  have "block_at (Suc d) ?c' = Some []" using block_at_set_at [OF blk] by (simp add: block_at_Suc)
  moreover have "between_statements TOKEN_TYPE_START_BLOCK" by (simp add: between_statements_def)
  ultimately obtain lty' where l': "lty' \<in> {TOKEN_TYPE_START_BLOCK, TOKEN_TYPE_STATEMENT_END, TOKEN_TYPE_END_BLOCK}"
    and r': "Parse_run (config_tokens block @ ?close) TOKEN_TYPE_START_BLOCK (Suc (Suc d)) ?c' =
             Parse_run ?close lty' (Suc (Suc d)) (set_at (Suc d) ([] @ statements block) ?c')"
    using reads_configD [OF block, of "Suc d" ?c' "[]" TOKEN_TYPE_START_BLOCK ?close] by auto
  have "Parse_run ?close lty' (Suc (Suc d)) cc = Parse_run rest TOKEN_TYPE_END_BLOCK (Suc d) cc" for cc
    using l' by (auto simp: Parse_turn_def)
  then show "\<exists>lty'\<in>{TOKEN_TYPE_STATEMENT_END, TOKEN_TYPE_END_BLOCK}.
      Parse_run (statement_tokens (NginxConfigStatement ts (Some block)) @ rest) lty (Suc d) config =
      Parse_run rest lty' (Suc d) (set_at d (xs @ [NginxConfigStatement ts (Some block)]) config)"
    using Parse_run_statement_head [OF blk lty ts, of "(TOKEN_TYPE_START_BLOCK, ''{'') # config_tokens block @ ?close"]
      opened r' set_at_Suc [OF blk] by (simp add: sub)
qed

lemma Parse_run_complete: "wf_config cfg \<Longrightarrow> reads_config cfg" "wf_statement st \<Longrightarrow> reads_statement st"
proof (induction cfg and st rule: config_tokens_statement_tokens.induct)
  case (1 sts)
  then show ?case by (intro reads_config_statements) (auto simp: list_all_iff)
next
  case (2 ts child)
  then show ?case by (cases child) (auto intro: reads_statement_leaf reads_statement_block)
qed

section \<open>The parser against the grammar\<close>

lemma Parse_sound:
  assumes acc: "Parse i (NginxConfig []) = Inr (True, cfg)"
  shows "wf_config cfg \<and> (\<exists>v. filter significant (tokenize i) = config_tokens cfg @ [(TOKEN_TYPE_EOF, v)])"
proof -
  have "turn_inv (config_tokens (NginxConfig [])) TOKEN_TYPE_START 1 (NginxConfig [])"
    by (rule turn_inv_initial) simp
  from Parse_run_inv [OF this tokenize_canonical [of i]] acc
  obtain X v rest where "wf_config cfg" "filter significant (tokenize i) = X @ (TOKEN_TYPE_EOF, v) # rest"
      "config_tokens cfg = X"
    by (auto simp: Parse_def Parse_loop_run)
  then show ?thesis using tokenize_eof_last [of i X v rest] by auto
qed

lemma Parse_complete:
  assumes wf: "wf_config cfg"
    and toks: "filter significant (tokenize i) = config_tokens cfg @ [(TOKEN_TYPE_EOF, v)]"
  shows "Parse i (NginxConfig []) = Inr (True, cfg)"
proof -
  obtain lty where "lty \<in> {TOKEN_TYPE_START, TOKEN_TYPE_STATEMENT_END, TOKEN_TYPE_END_BLOCK}"
    and "Parse_run (config_tokens cfg @ [(TOKEN_TYPE_EOF, v)]) TOKEN_TYPE_START (Suc 0) (NginxConfig []) =
         Parse_run [(TOKEN_TYPE_EOF, v)] lty (Suc 0) (NginxConfig (statements cfg))"
    using Parse_run_complete(1) [OF wf, THEN reads_configD, of 0 "NginxConfig []" "[]" TOKEN_TYPE_START "[(TOKEN_TYPE_EOF, v)]"]
    by (auto simp: between_statements_def)
  then have "Parse_run (config_tokens cfg @ [(TOKEN_TYPE_EOF, v)]) TOKEN_TYPE_START 1 (NginxConfig []) = Inr (True, cfg)"
    by (auto simp: Parse_turn_def)
  then show ?thesis
    by (simp add: Parse_def Parse_loop_run toks [symmetric] Parse_run_significant)
qed

text \<open>
  C1. \<^verbatim>\<open>Parse\<close> on a fresh configuration returns true with the tree
  \<open>cfg\<close> exactly when every statement of \<open>cfg\<close> has a token and the input, comments
  aside, is the token sequence of \<open>cfg\<close> followed by the end of the input: the parser
  decides the configuration grammar and builds the one tree the tokens describe.
\<close>

theorem Parse_accepts_iff:
  "Parse i (NginxConfig []) = Inr (True, cfg) \<longleftrightarrow>
   wf_config cfg \<and> (\<exists>v. filter significant (tokenize i) = config_tokens cfg @ [(TOKEN_TYPE_EOF, v)])"
  using Parse_sound Parse_complete by metis

text \<open>
  C28. \<^verbatim>\<open>Parse\<close> always returns, never follows a null child or reads the back of an
  empty vector, and leaves a configuration in which every statement has at least one token,
  also when it returns false and the caller's configuration holds the part parsed so far.
\<close>

theorem Parse_total_wf:
  assumes "wf_config config"
  shows "\<exists>ok config'. Parse i config = Inr (ok, config') \<and> wf_config config'"
  using Parse_run_inv [OF turn_inv_initial [OF assms] tokenize_canonical [of i]]
  by (auto simp: Parse_def Parse_loop_run)

theorem Parse_total_wf_witness:
  "wf_config (NginxConfig []) \<and>
   (\<exists>ok config'. Parse ''server { port 80'' (NginxConfig []) = Inr (ok, config') \<and> wf_config config')"
  using Parse_total_wf [of "NginxConfig []" "''server { port 80''"] by simp

end
