(* ===== verification/Config_Roundtrip.thy ===== *)
theory Config_Roundtrip
  imports Config_Grammar
begin

text \<open>
  Printing and parsing: \<^verbatim>\<open>Parse\<close> reads back what \<^verbatim>\<open>ToString\<close> writes,
  for configurations whose tokens need no escapes, at any indentation.
\<close>

section \<open>Printable tokens\<close>

definition starts_plain :: "char \<Rightarrow> bool" where
  "starts_plain c \<longleftrightarrow>
     \<not> ends_token c \<and> c \<noteq> CHR ''#'' \<and> c \<noteq> CHR 0x22 \<and> c \<noteq> CHR 0x27 \<and> c \<noteq> CHR 0x0D"

fun plain_token :: "string \<Rightarrow> bool" where
  "plain_token [] = False"
| "plain_token (c # cs) \<longleftrightarrow> starts_plain c \<and> list_all (\<lambda>x. \<not> ends_token x) cs"

definition quoted_token :: "string \<Rightarrow> bool" where
  "quoted_token t \<longleftrightarrow>
     2 \<le> length t \<and> hd t = last t \<and> (hd t = CHR 0x22 \<or> hd t = CHR 0x27) \<and>
     list_all (\<lambda>x. x \<noteq> hd t \<and> x \<noteq> CHR 0x5C) (butlast (tl t))"

definition printable_token :: "string \<Rightarrow> bool" where
  "printable_token t \<longleftrightarrow> plain_token t \<or> quoted_token t"

fun printable_config :: "NginxConfig \<Rightarrow> bool"
and printable_statement :: "NginxConfigStatement \<Rightarrow> bool" where
  "printable_config (NginxConfig sts) \<longleftrightarrow> list_all printable_statement sts"
| "printable_statement (NginxConfigStatement ts child) \<longleftrightarrow>
     ts \<noteq> [] \<and> list_all printable_token ts \<and>
     (case child of None \<Rightarrow> True | Some block \<Rightarrow> printable_config block)"

lemma printable_wf: "printable_config cfg \<Longrightarrow> wf_config cfg" "printable_statement st \<Longrightarrow> wf_statement st"
  by (induction cfg and st rule: printable_config_printable_statement.induct)
     (auto simp: list_all_iff split: option.splits)

section \<open>The tokenizer on printed text\<close>

lemma ParseToken_loop_normal:
  "list_all (\<lambda>x. \<not> ends_token x) cs \<Longrightarrow> ends_token c \<Longrightarrow>
   ParseToken_loop TOKEN_STATE_TOKEN_TYPE_NORMAL v (cs @ c # rest) = (TOKEN_TYPE_NORMAL, v @ cs, c # rest)"
  by (induction cs arbitrary: v) auto

lemma ParseToken_loop_normal_eof:
  "list_all (\<lambda>x. \<not> ends_token x) cs \<Longrightarrow>
   ParseToken_loop TOKEN_STATE_TOKEN_TYPE_NORMAL v cs = (TOKEN_TYPE_EOF, v @ cs, [])"
  by (induction cs arbitrary: v) auto

lemma ParseToken_loop_double_quote:
  "list_all (\<lambda>x. x \<noteq> CHR 0x22 \<and> x \<noteq> CHR 0x5C) cs \<Longrightarrow>
   ParseToken_loop TOKEN_STATE_DOUBLE_QUOTE v (cs @ CHR 0x22 # rest) = after_quote (v @ cs @ [CHR 0x22]) rest"
  by (induction cs arbitrary: v) auto

lemma ParseToken_loop_single_quote:
  "list_all (\<lambda>x. x \<noteq> CHR 0x27 \<and> x \<noteq> CHR 0x5C) cs \<Longrightarrow>
   ParseToken_loop TOKEN_STATE_SINGLE_QUOTE v (cs @ CHR 0x27 # rest) = after_quote (v @ cs @ [CHR 0x27]) rest"
  by (induction cs arbitrary: v) auto

lemma ParseToken_plain:
  assumes "plain_token t" and "ends_token c"
  shows "ParseToken (t @ c # rest) = (TOKEN_TYPE_NORMAL, t, c # rest)"
proof -
  obtain d cs where "t = d # cs" "starts_plain d" "list_all (\<lambda>x. \<not> ends_token x) cs"
    using assms(1) by (cases t) auto
  then show ?thesis
    using ParseToken_loop_normal [OF _ assms(2), of cs "[d]" rest]
    by (simp add: ParseToken_def starts_plain_def ends_token_def)
qed

lemma quoted_tokenE:
  assumes "quoted_token t"
  obtains q body where "t = q # body @ [q]" and "q = CHR 0x22 \<or> q = CHR 0x27"
    and "list_all (\<lambda>x. x \<noteq> q \<and> x \<noteq> CHR 0x5C) body"
proof -
  obtain q r where t: "t = q # r" and "r \<noteq> []"
    using assms by (cases t; cases "tl t") (auto simp: quoted_token_def)
  then have "r = butlast r @ [q]" using assms by (simp add: quoted_token_def)
  with t assms show thesis by (intro that [of q "butlast r"]) (auto simp: quoted_token_def)
qed

lemma ParseToken_quoted:
  assumes "quoted_token t" and "ends_token c"
  shows "ParseToken (t @ c # rest) = (TOKEN_TYPE_NORMAL, t, c # rest)"
  using assms(1)
proof (rule quoted_tokenE)
  fix q body
  assume t: "t = q # body @ [q]" and q: "q = CHR 0x22 \<or> q = CHR 0x27"
    and body: "list_all (\<lambda>x. x \<noteq> q \<and> x \<noteq> CHR 0x5C) body"
  have "ParseToken_loop TOKEN_STATE_INITIAL_WHITESPACE [] (q # body @ q # c # rest) =
      after_quote (q # body @ [q]) (c # rest)"
    using q
  proof
    assume "q = CHR 0x22"
    then show ?thesis using ParseToken_loop_double_quote [of body "[q]" "c # rest"] body by simp
  next
    assume "q = CHR 0x27"
    then show ?thesis using ParseToken_loop_single_quote [of body "[q]" "c # rest"] body by simp
  qed
  then show ?thesis using assms(2) by (simp add: ParseToken_def t)
qed

lemma tokenize_printable:
  assumes "printable_token t" and "ends_token c"
  shows "tokenize (t @ c # rest) = (TOKEN_TYPE_NORMAL, t) # tokenize (c # rest)"
proof -
  have "ParseToken (t @ c # rest) = (TOKEN_TYPE_NORMAL, t, c # rest)"
    using assms ParseToken_plain ParseToken_quoted by (auto simp: printable_token_def)
  then show ?thesis by (subst tokenize.simps) simp
qed

lemma tokenize_whitespace [simp]:
  assumes "c = CHR '' '' \<or> c = CHR 0x09 \<or> c = CHR 0x0A \<or> c = CHR 0x0D"
  shows "tokenize (c # rest) = tokenize rest"
proof -
  have "ParseToken (c # rest) = ParseToken rest" using assms by (auto simp: ParseToken_def)
  then show ?thesis by (simp add: tokenize.simps)
qed

lemma tokenize_punctuation [simp]:
  "tokenize (CHR ''{'' # rest) = (TOKEN_TYPE_START_BLOCK, ''{'') # tokenize rest"
  "tokenize (CHR ''}'' # rest) = (TOKEN_TYPE_END_BLOCK, ''}'') # tokenize rest"
  "tokenize (CHR '';'' # rest) = (TOKEN_TYPE_STATEMENT_END, '';'') # tokenize rest"
  by (subst tokenize.simps, simp add: ParseToken_def)+

lemma tokenize_indent [simp]: "tokenize (indent depth @ rest) = tokenize rest"
proof -
  have "tokenize (concat (replicate n ''  '') @ rest) = tokenize rest" for n
    by (induction n) simp_all
  then show ?thesis by (simp add: indent_def)
qed

lemma tokenize_join:
  "ts \<noteq> [] \<Longrightarrow> list_all printable_token ts \<Longrightarrow> ends_token c \<Longrightarrow>
   tokenize (join_tokens ts @ c # rest) = map (Pair TOKEN_TYPE_NORMAL) ts @ tokenize (c # rest)"
  by (induction ts rule: join_tokens.induct) (simp_all add: tokenize_printable ends_token_def)

lemma tokenize_ToString:
  "printable_config cfg \<Longrightarrow>
   tokenize (NginxConfig_ToString cfg depth @ rest) = config_tokens cfg @ tokenize rest"
  "printable_statement st \<Longrightarrow>
   tokenize (NginxConfigStatement_ToString st depth @ rest) = statement_tokens st @ tokenize rest"
proof (induction cfg depth and st depth arbitrary: rest and rest
       rule: NginxConfig_ToString_NginxConfigStatement_ToString.induct)
  case (1 sts depth)
  then show ?case by (induction sts) auto
next
  case (2 ts child depth)
  then show ?case
    by (cases child) (simp_all add: tokenize_join ends_token_def)
qed

lemma config_tokens_significant [simp]:
  "filter significant (config_tokens cfg) = config_tokens cfg"
  "filter significant (statement_tokens st) = statement_tokens st"
  by (induction cfg and st rule: config_tokens_statement_tokens.induct)
     (auto simp: filter_concat significant_def o_def filter_map split: option.splits cong: map_cong)

lemma tokenize_Nil [simp]: "tokenize [] = [(TOKEN_TYPE_EOF, [])]"
  by (subst tokenize.simps) (simp add: ParseToken_def)

text \<open>
  C17. Parsing what \<^verbatim>\<open>ToString\<close> printed, at any depth of indentation, gives back
  the same configuration, for every configuration whose tokens are plain words or quoted
  strings without escapes.
\<close>

theorem Parse_ToString_roundtrip:
  assumes "printable_config cfg"
  shows "Parse (NginxConfig_ToString cfg depth) (NginxConfig []) = Inr (True, cfg)"
proof (rule Parse_complete [OF printable_wf(1) [OF assms]])
  show "filter significant (tokenize (NginxConfig_ToString cfg depth)) = config_tokens cfg @ [(TOKEN_TYPE_EOF, [])]"
    using tokenize_ToString(1) [OF assms, of depth "[]"] by (simp add: significant_def)
qed

definition sample_config :: NginxConfig where
  "sample_config = NginxConfig
     [NginxConfigStatement [''server''] (Some (NginxConfig
        [NginxConfigStatement [''port'', ''80''] None,
         NginxConfigStatement [''location'', ''/echo/'', ''EchoHandler''] (Some (NginxConfig []))]))]"

lemma printable_sample_config: "printable_config sample_config"
  by (simp add: sample_config_def printable_token_def starts_plain_def ends_token_def)

theorem Parse_ToString_roundtrip_witness:
  "printable_config sample_config \<and>
   Parse (NginxConfig_ToString sample_config 0) (NginxConfig []) = Inr (True, sample_config)"
  using Parse_ToString_roundtrip [OF printable_sample_config, of 0] printable_sample_config by blast

section \<open>The end of the input inside a token\<close>

lemma tokenize_plain_eof: "plain_token t \<Longrightarrow> tokenize t = [(TOKEN_TYPE_EOF, t)]"
proof -
  assume "plain_token t"
  then obtain d cs where "t = d # cs" "starts_plain d" "list_all (\<lambda>x. \<not> ends_token x) cs"
    by (cases t) auto
  then have "ParseToken t = (TOKEN_TYPE_EOF, t, [])"
    using ParseToken_loop_normal_eof [of cs "[d]"]
    by (simp add: ParseToken_def starts_plain_def ends_token_def)
  then show ?thesis by (subst tokenize.simps) simp
qed

text \<open>
  A word that the end of the input cuts off is dropped without an error: appending an
  unterminated plain word to a valid configuration is accepted and gives the same tree,
  because \<^verbatim>\<open>ParseToken\<close> returns \<^verbatim>\<open>TOKEN_TYPE_EOF\<close> in the middle
  of a token.
\<close>

lemma Parse_drops_unterminated_word:
  assumes "printable_config cfg" and "plain_token t"
  shows "Parse (NginxConfig_ToString cfg depth @ t) (NginxConfig []) = Inr (True, cfg)"
proof (rule Parse_complete [OF printable_wf(1) [OF assms(1)]])
  show "filter significant (tokenize (NginxConfig_ToString cfg depth @ t)) = config_tokens cfg @ [(TOKEN_TYPE_EOF, t)]"
    using tokenize_ToString(1) [OF assms(1), of depth t] tokenize_plain_eof [OF assms(2)]
    by (simp add: significant_def)
qed

text \<open>
  A carriage return does not end a word: it becomes part of the token (the condition at
  line 160 of \<^verbatim>\<open>config_parser.cc\<close> lists the tab twice and the carriage return not
  at all), so a word at the end of a line with DOS line ends keeps the carriage return.
\<close>

theorem ParseToken_keeps_carriage_return:
  assumes "plain_token t"
  shows "ParseToken (t @ CHR 0x0D # CHR 0x0A # rest) = (TOKEN_TYPE_NORMAL, t @ [CHR 0x0D], CHR 0x0A # rest)"
proof -
  have "plain_token (t @ [CHR 0x0D])" using assms by (cases t) (auto simp: ends_token_def)
  then show ?thesis
    using ParseToken_plain [of "t @ [CHR 0x0D]" "CHR 0x0A" rest] by (simp add: ends_token_def)
qed

theorem ParseToken_keeps_carriage_return_witness:
  "plain_token ''server'' \<and>
   ParseToken (''server'' @ CHR 0x0D # CHR 0x0A # ''{'') =
     (TOKEN_TYPE_NORMAL, ''server'' @ [CHR 0x0D], CHR 0x0A # ''{'')"
proof -
  have "plain_token ''server''" by (simp add: starts_plain_def ends_token_def)
  with ParseToken_keeps_carriage_return [OF this, of "''{''"] show ?thesis by blast
qed

end
