(* ===== verification/Config_Query.thy ===== *)
theory Config_Query
  imports Config_Roundtrip
begin

text \<open>
  The questions the program asks of a parsed configuration:
  \<^verbatim>\<open>get_config_port\<close>, \<^verbatim>\<open>get_auth_time\<close> and
  \<^verbatim>\<open>get_credentials\<close> of \<^verbatim>\<open>src/config_parser.cc\<close>.
\<close>

section \<open>Port and authorization time\<close>

text \<open>
  The two methods are the same code with a different key. \<open>leaf_number\<close> is the first
  loop, over the statements without a child block; \<open>child_number\<close> is the second one, over
  the child blocks. The indices \<^verbatim>\<open>[0]\<close> and \<^verbatim>\<open>[1]\<close> are read after the
  size check only.
\<close>

fun leaf_number :: "string \<Rightarrow> NginxConfigStatement list \<Rightarrow> int option res" where
  "leaf_number key [] = Inr None"
| "leaf_number key (NginxConfigStatement ts child # sts) =
     (if child = None \<and> length ts = 2 \<and> ts ! 0 = key
      then bind_res (atoi (ts ! 1)) (\<lambda>ret. Inr (Some (if 0 \<le> ret \<and> ret \<le> 65535 then ret else -1)))
      else leaf_number key sts)"

function get_number :: "string \<Rightarrow> NginxConfig \<Rightarrow> int res"
and child_number :: "string \<Rightarrow> NginxConfigStatement list \<Rightarrow> int res" where
  "get_number key (NginxConfig sts) =
     bind_res (leaf_number key sts)
       (\<lambda>r. case r of Some ret \<Rightarrow> Inr ret | None \<Rightarrow> child_number key sts)"
| "child_number key [] = Inr (-1)"
| "child_number key (NginxConfigStatement ts child # sts) =
     (case child of
        None \<Rightarrow> child_number key sts
      | Some block \<Rightarrow>
          bind_res (get_number key block)
            (\<lambda>ret. if ret \<noteq> -1 then Inr ret else child_number key sts))"
  by pat_completeness auto
termination
  by (relation "measure (case_sum (\<lambda>(_, c). size c) (\<lambda>(_, sts). size_list size sts))") auto

definition get_config_port :: "NginxConfig \<Rightarrow> int res" where
  "get_config_port config = get_number ''port'' config"

definition get_auth_time :: "NginxConfig \<Rightarrow> int res" where
  "get_auth_time config = get_number ''timer'' config"

section \<open>Credentials\<close>

type_synonym credentials = "string \<rightharpoonup> string"

definition add_credential :: "NginxConfigStatement \<Rightarrow> credentials \<Rightarrow> credentials" where
  "add_credential st creds =
     (if length (tokens st) = 1 then
        (case find_char CHR '':'' (tokens st ! 0) of
           None \<Rightarrow> creds
         | Some pos \<Rightarrow> creds(take pos (tokens st ! 0) \<mapsto> drop (pos + 1) (tokens st ! 0)))
      else creds)"

function get_credentials :: "NginxConfig \<Rightarrow> credentials res"
and credentials_loop :: "NginxConfigStatement list \<Rightarrow> credentials res" where
  "get_credentials (NginxConfig sts) = credentials_loop sts"
| "credentials_loop [] = Inr Map.empty"
| "credentials_loop (NginxConfigStatement ts child # sts) =
     (if ts = [] then Inl Out_Of_Range
      else if ts ! 0 = ''credentials'' then
        (case child of
           None \<Rightarrow> Inl Null_Dereference
         | Some block \<Rightarrow> Inr (fold add_credential (statements block) Map.empty))
      else
        (case child of
           Some block \<Rightarrow> get_credentials block
         | None \<Rightarrow> credentials_loop sts))"
  by pat_completeness auto
termination
  by (relation "measure (case_sum size (size_list size))") auto

section \<open>The deployed configuration\<close>

text \<open>The tree of \<^verbatim>\<open>src/example_config3.conf\<close>, the configuration the server ships with.\<close>

definition example_config3 :: NginxConfig where
  "example_config3 = NginxConfig
     [NginxConfigStatement [''server''] (Some (NginxConfig
        [NginxConfigStatement [''port'', ''80''] None,
         NginxConfigStatement [''timer'', ''1800''] None,
         NginxConfigStatement [''credentials''] (Some (NginxConfig
           [NginxConfigStatement [''tariq:123''] None,
            NginxConfigStatement [''milly:456''] None,
            NginxConfigStatement [''shravan:789''] None,
            NginxConfigStatement [''umer:101''] None])),
         NginxConfigStatement [''location'', ''/static/'', ''StaticHandler''] (Some (NginxConfig
           [NginxConfigStatement [''root'', ''/data''] None])),
         NginxConfigStatement [''location'', ''/echo/'', ''EchoHandler''] (Some (NginxConfig [])),
         NginxConfigStatement [''location'', ''/api/'', ''APIHandler''] (Some (NginxConfig
           [NginxConfigStatement [''root'', ''./api_storage/''] None])),
         NginxConfigStatement [''location'', ''/health'', ''HealthHandler''] (Some (NginxConfig [])),
         NginxConfigStatement [''location'', ''/sleep'', ''SleepHandler''] (Some (NginxConfig []))]))]"

lemma example_config3_port: "get_config_port example_config3 = Inr 80"
  by code_simp

lemma example_config3_auth_time: "get_auth_time example_config3 = Inr 1800"
  by code_simp

section \<open>Ranges\<close>

definition in_number_range :: "int \<Rightarrow> bool" where
  "in_number_range ret \<longleftrightarrow> -1 \<le> ret \<and> ret \<le> 65535"

lemma leaf_number_range: "leaf_number key sts = Inr (Some ret) \<Longrightarrow> in_number_range ret"
  by (induction key sts rule: leaf_number.induct)
     (auto simp: bind_res_eq_Inr_iff in_number_range_def split: if_splits)

lemma get_number_range:
  "get_number key config = Inr ret \<Longrightarrow> in_number_range ret"
  "child_number key sts = Inr ret \<Longrightarrow> in_number_range ret"
proof (induction key config and key sts arbitrary: ret and ret rule: get_number_child_number.induct)
  case (1 key sts)
  from "1.prems" obtain r where "leaf_number key sts = Inr r"
      "(case r of Some v \<Rightarrow> Inr v | None \<Rightarrow> child_number key sts) = Inr ret"
    by (auto simp: bind_res_eq_Inr_iff)
  then show ?case by (cases r) (auto intro: "1.IH" leaf_number_range)
next
  case (2 key)
  then show ?case by (simp add: in_number_range_def)
next
  case (3 key ts child sts)
  then show ?case by (auto simp: bind_res_eq_Inr_iff split: option.splits if_splits)
qed

section \<open>Which statement answers\<close>

definition is_leaf_of :: "string \<Rightarrow> NginxConfigStatement \<Rightarrow> bool" where
  "is_leaf_of key st \<longleftrightarrow> child_block st = None \<and> length (tokens st) = 2 \<and> tokens st ! 0 = key"

lemma leaf_number_first:
  assumes "\<forall>st\<in>set pre. \<not> is_leaf_of key st"
  shows "leaf_number key (pre @ NginxConfigStatement [key, v] None # post) =
         bind_res (atoi v) (\<lambda>ret. Inr (Some (if 0 \<le> ret \<and> ret \<le> 65535 then ret else -1)))"
  using assms
proof (induction pre)
  case (Cons st pre)
  then show ?case by (cases st) (auto simp: is_leaf_of_def)
qed simp

text \<open>
  C30. The first \<^verbatim>\<open>port\<close> statement of the outermost block decides the port, whatever
  follows it or is nested in other blocks: its number when it is at most 65535, and -1
  otherwise, also when a later statement has a valid one.
\<close>

theorem get_config_port_outermost:
  assumes "\<forall>st\<in>set pre. \<not> is_leaf_of ''port'' st" and "0 \<le> n" and "n \<le> INT_MAX"
  shows "get_config_port (NginxConfig (pre @ NginxConfigStatement [''port'', int_to_string n] None # post)) =
         Inr (if n \<le> 65535 then n else -1)"
proof -
  have "atoi (int_to_string n) = Inr n"
    using assms(2,3) by (intro atoi_int_to_string) (auto simp: INT_MIN_def)
  then show ?thesis
    using assms by (simp add: get_config_port_def leaf_number_first)
qed

theorem get_config_port_outermost_witness:
  "get_config_port (NginxConfig
     ([NginxConfigStatement [''foo'', ''bar''] None] @ NginxConfigStatement [''port'', int_to_string 70000] None #
      [NginxConfigStatement [''port'', ''80''] None])) = Inr (-1)"
  using get_config_port_outermost
    [of "[NginxConfigStatement [''foo'', ''bar''] None]" 70000 "[NginxConfigStatement [''port'', ''80''] None]"]
  by (simp add: is_leaf_of_def INT_MAX_def)

text \<open>
  The port and the authorization time lie between -1 (absent or invalid) and 65535, for
  every configuration on which the conversion of the digits is defined.
\<close>

theorem config_numbers_range:
  assumes "get_config_port config = Inr port" and "get_auth_time config = Inr auth_time"
  shows "-1 \<le> port \<and> port \<le> 65535 \<and> -1 \<le> auth_time \<and> auth_time \<le> 65535"
  using assms get_number_range(1) by (fastforce simp: get_config_port_def get_auth_time_def in_number_range_def)

theorem config_numbers_range_witness:
  "get_config_port example_config3 = Inr 80 \<and> get_auth_time example_config3 = Inr 1800 \<and>
   (-1 \<le> (80::int) \<and> (80::int) \<le> 65535 \<and> -1 \<le> (1800::int) \<and> (1800::int) \<le> 65535)"
  using config_numbers_range [OF example_config3_port example_config3_auth_time]
    example_config3_port example_config3_auth_time by blast

section \<open>What the credentials block means\<close>

lemma credentials_loop_skip:
  assumes "\<forall>st\<in>set pre. tokens st \<noteq> [] \<and> tokens st ! 0 \<noteq> ''credentials'' \<and> child_block st = None"
  shows "credentials_loop (pre @ post) = credentials_loop post"
  using assms
proof (induction pre)
  case (Cons st pre)
  then show ?case by (cases st) auto
qed simp

definition credential_statement :: "string \<times> string \<Rightarrow> NginxConfigStatement" where
  "credential_statement c = NginxConfigStatement [fst c @ CHR '':'' # snd c] None"

lemma add_credential_statement:
  "CHR '':'' \<notin> set (fst c) \<Longrightarrow> add_credential (credential_statement c) m = m(fst c \<mapsto> snd c)"
  by (simp add: add_credential_def credential_statement_def find_char_append_notin)

lemma fold_add_credential:
  "\<forall>c\<in>set cs. CHR '':'' \<notin> set (fst c) \<Longrightarrow>
   fold add_credential (map credential_statement cs) m = m ++ map_of (rev cs)"
proof (induction cs arbitrary: m)
  case (Cons c cs)
  then show ?case
    by (cases c) (auto simp: add_credential_statement map_add_def split: option.splits)
qed simp



text \<open>
  C34. On a configuration the parser produced, reading \<^verbatim>\<open>tokens_[0]\<close> in
  \<^verbatim>\<open>get_credentials\<close> is always in range: the method either returns a map or
  dereferences the null child of a \<^verbatim>\<open>credentials\<close> statement that has no block.
\<close>

lemma get_credentials_fault:
  "wf_config config \<Longrightarrow> get_credentials config = Inl e \<Longrightarrow> e = Null_Dereference"
  "list_all wf_statement sts \<Longrightarrow> credentials_loop sts = Inl e \<Longrightarrow> e = Null_Dereference"
  by (induction config and sts rule: get_credentials_credentials_loop.induct)
     (auto split: option.splits if_splits)

theorem get_credentials_after_Parse:
  assumes "Parse i (NginxConfig []) = Inr (ok, config)" and "get_credentials config = Inl e"
  shows "e = Null_Dereference"
proof -
  have "wf_config config"
    using Parse_run_inv [OF turn_inv_initial [of "NginxConfig []"] tokenize_canonical [of i]] assms(1)
    by (auto simp: Parse_def Parse_loop_run)
  with get_credentials_fault(1) assms(2) show ?thesis by blast
qed

lemma Parse_credentials_leaf:
  "Parse ''credentials;'' (NginxConfig []) = Inr (True, NginxConfig [NginxConfigStatement [''credentials''] None])"
  by code_simp

theorem get_credentials_after_Parse_witness:
  "Parse ''credentials;'' (NginxConfig []) = Inr (True, NginxConfig [NginxConfigStatement [''credentials''] None]) \<and>
   get_credentials (NginxConfig [NginxConfigStatement [''credentials''] None]) = Inl Null_Dereference \<and>
   Null_Dereference = Null_Dereference"
  using get_credentials_after_Parse [OF Parse_credentials_leaf, of Null_Dereference] Parse_credentials_leaf
  by simp

text \<open>
  The search for credentials enters the first block it meets and never leaves it: a
  block in front of the \<^verbatim>\<open>credentials\<close> block (a \<^verbatim>\<open>location\<close>, for
  instance) hides it, whatever follows.
\<close>

lemma get_credentials_first_block:
  assumes "\<forall>st\<in>set pre. tokens st \<noteq> [] \<and> tokens st ! 0 \<noteq> ''credentials'' \<and> child_block st = None"
    and "ts \<noteq> []" and "ts ! 0 \<noteq> ''credentials''"
  shows "get_credentials (NginxConfig (pre @ NginxConfigStatement ts (Some block) # post)) = get_credentials block"
  using assms by (simp add: credentials_loop_skip)

end
