(* ===== verification/File_System.thy ===== *)
theory File_System
  imports Prelude
begin

text \<open>
  The file system under the program, and what the program uses of the standard library on it:
  path resolution, \<^verbatim>\<open>std::ifstream\<close>, \<^verbatim>\<open>std::ofstream\<close>,
  \<^verbatim>\<open>std::filesystem::path::parent_path\<close> and
  \<^verbatim>\<open>std::filesystem::create_directories\<close>. A tree of directories and regular files
  with read and write permission on files; no symbolic links, special files, disk-full errors
  or concurrent processes.
\<close>

section \<open>Files and paths\<close>

type_synonym location = "string list"

datatype node =
    Dir
  | File (readable: bool) (writable: bool) (content: string)

record file_system =
  nodes :: "location \<rightharpoonup> node"
  cwd :: location

fun split_path :: "string \<Rightarrow> string list" where
  "split_path [] = [[]]"
| "split_path (c # s) =
     (if c = CHR ''/'' then [] # split_path s
      else case split_path s of [] \<Rightarrow> [[c]] | w # ws \<Rightarrow> (c # w) # ws)"

definition path_start :: "file_system \<Rightarrow> string \<Rightarrow> location" where
  "path_start fs p = (case p of c # _ \<Rightarrow> (if c = CHR ''/'' then [] else cwd fs) | [] \<Rightarrow> cwd fs)"

text \<open>
  Pathname resolution: every component is looked up in a directory; an empty component and
  \<^verbatim>\<open>.\<close> stay, \<^verbatim>\<open>..\<close> goes up. The location reached need not exist, the
  directories on the way must.
\<close>

fun walk :: "file_system \<Rightarrow> location \<Rightarrow> string list \<Rightarrow> location option" where
  "walk fs cur [] = Some cur"
| "walk fs cur (c # cs) =
     (if nodes fs cur \<noteq> Some Dir then None
      else if c = [] \<or> c = ''.'' then walk fs cur cs
      else if c = ''..'' then walk fs (butlast cur) cs
      else walk fs (cur @ [c]) cs)"

definition resolve :: "file_system \<Rightarrow> string \<Rightarrow> location option" where
  "resolve fs p = (if p = [] then None else walk fs (path_start fs p) (split_path p))"

definition stat :: "file_system \<Rightarrow> string \<Rightarrow> node option" where
  "stat fs p = (case resolve fs p of None \<Rightarrow> None | Some k \<Rightarrow> nodes fs k)"

definition wf_fs :: "file_system \<Rightarrow> bool" where
  "wf_fs fs \<longleftrightarrow> nodes fs [] = Some Dir \<and> nodes fs (cwd fs) = Some Dir \<and> finite (dom (nodes fs)) \<and>
     (\<forall>k c. nodes fs (k @ [c]) \<noteq> None \<longrightarrow> nodes fs k = Some Dir)"

section \<open>Operations of the standard library\<close>

definition set_node :: "location \<Rightarrow> node \<Rightarrow> file_system \<Rightarrow> file_system" where
  "set_node k n fs = fs\<lparr>nodes := (nodes fs)(k \<mapsto> n)\<rparr>"

definition del_node :: "location \<Rightarrow> file_system \<Rightarrow> file_system" where
  "del_node k fs = fs\<lparr>nodes := (nodes fs)(k := None)\<rparr>"

text \<open>
  Everything an input stream on a path delivers: \<open>None\<close> when it cannot be opened; a
  directory opens but yields nothing.
\<close>

definition ifstream_read :: "file_system \<Rightarrow> string \<Rightarrow> string option" where
  "ifstream_read fs p =
     (case stat fs p of
        None \<Rightarrow> None
      | Some Dir \<Rightarrow> Some []
      | Some (File r w c) \<Rightarrow> (if r then Some c else None))"

text \<open>
  \<^verbatim>\<open>std::ofstream ofs(path); ofs << data;\<close> truncates or creates the file; when the path
  cannot be opened for writing, nothing happens and nothing is reported.
\<close>

definition ofstream_write :: "file_system \<Rightarrow> string \<Rightarrow> string \<Rightarrow> file_system" where
  "ofstream_write fs p data =
     (case resolve fs p of
        None \<Rightarrow> fs
      | Some k \<Rightarrow>
          (case nodes fs k of
             None \<Rightarrow> set_node k (File True True data) fs
           | Some Dir \<Rightarrow> fs
           | Some (File r w c) \<Rightarrow> (if w then set_node k (File r w data) fs else fs)))"

fun strip_slashes :: "string \<Rightarrow> string" where
  "strip_slashes s = (if s \<noteq> [] \<and> last s = CHR ''/'' then strip_slashes (butlast s) else s)"

declare strip_slashes.simps [simp del]

definition parent_path :: "string \<Rightarrow> string" where
  "parent_path p =
     (case find_last_of CHR ''/'' p of
        None \<Rightarrow> []
      | Some i \<Rightarrow> (let q = strip_slashes (take i p) in if q = [] then ''/'' else q))"

text \<open>
  \<^verbatim>\<open>create_directories\<close> makes every missing directory on the way and throws when a
  component exists and is not a directory.
\<close>

fun make_directories :: "file_system \<Rightarrow> location \<Rightarrow> string list \<Rightarrow> file_system res" where
  "make_directories fs cur [] = Inr fs"
| "make_directories fs cur (c # cs) =
     (if c = [] \<or> c = ''.'' then make_directories fs cur cs
      else if c = ''..'' then make_directories fs (butlast cur) cs
      else case nodes fs (cur @ [c]) of
        None \<Rightarrow> make_directories (set_node (cur @ [c]) Dir fs) (cur @ [c]) cs
      | Some Dir \<Rightarrow> make_directories fs (cur @ [c]) cs
      | Some (File r w d) \<Rightarrow> Inl Exception_Thrown)"

definition create_directories :: "file_system \<Rightarrow> string \<Rightarrow> file_system res" where
  "create_directories fs p =
     (if p = [] then Inl Exception_Thrown else make_directories fs (path_start fs p) (split_path p))"

section \<open>Lemmas\<close>

lemma split_path_nonempty [simp]: "split_path s \<noteq> []"
  by (induction s) (auto split: list.splits)

lemma split_path_append_slash: "split_path (a @ CHR ''/'' # b) = split_path a @ split_path b"
  by (induction a) (auto split: list.splits)

lemma split_path_name: "CHR ''/'' \<notin> set s \<Longrightarrow> split_path s = [s]"
  by (induction s) auto

lemma walk_append:
  "walk fs cur (cs @ ds) = (case walk fs cur cs of None \<Rightarrow> None | Some k \<Rightarrow> walk fs k ds)"
  by (induction fs cur cs rule: walk.induct) auto

text \<open>A plain file name: a component that neither stays, nor goes up, nor has a slash.\<close>

definition plain_name :: "string \<Rightarrow> bool" where
  "plain_name n \<longleftrightarrow> n \<noteq> [] \<and> n \<noteq> ''.'' \<and> n \<noteq> ''..'' \<and> CHR ''/'' \<notin> set n"

lemma plain_name_int [simp]: "0 \<le> i \<Longrightarrow> plain_name (int_to_string i)"
proof -
  assume "0 \<le> i"
  then have "isdigit (hd (int_to_string i))" by (rule hd_int_to_string_digit)
  then show ?thesis by (auto simp: plain_name_def isdigit_def)
qed

lemma walk_plain:
  "plain_name c \<Longrightarrow> walk fs cur (c # cs) = (if nodes fs cur = Some Dir then walk fs (cur @ [c]) cs else None)"
  by (simp add: plain_name_def)

text \<open>Adding a node or changing one that is not a directory leaves resolution through directories alone.\<close>

lemma walk_mono:
  assumes "walk fs cur cs = Some k" and "\<And>x. nodes fs x = Some Dir \<Longrightarrow> nodes fs' x = Some Dir"
  shows "walk fs' cur cs = Some k"
  using assms by (induction fs cur cs rule: walk.induct) (auto split: if_splits)

lemma make_directories_existing:
  assumes "walk fs cur cs = Some k" and "nodes fs k = Some Dir" and "wf_fs fs"
  shows "make_directories fs cur (cs @ ds) = make_directories fs k ds"
  using assms
proof (induction fs cur cs rule: walk.induct)
  case (2 fs cur c cs)
  show ?case
  proof (cases "c = [] \<or> c = ''.'' \<or> c = ''..''")
    case True
    then show ?thesis using 2 by (auto split: if_splits)
  next
    case False
    then have w: "walk fs (cur @ [c]) cs = Some k" using "2.prems"(1) by (auto split: if_splits)
    have "nodes fs (cur @ [c]) = Some Dir"
      using w "2.prems"(2) by (cases cs) (auto split: if_splits)
    then show ?thesis using 2 False w by (auto split: if_splits)
  qed
qed simp


text \<open>The directory tree stays one: a node appears in a directory, and only a leaf disappears.\<close>

lemma wf_fs_set_child:
  assumes "wf_fs fs" and "nodes fs k = Some Dir" and "nodes fs (k @ [c]) = Some Dir \<longrightarrow> n = Dir"
  shows "wf_fs (set_node (k @ [c]) n fs)"
  using assms by (auto simp: wf_fs_def set_node_def)

lemma wf_fs_del_leaf:
  assumes "wf_fs fs" and "k \<noteq> []" and "k \<noteq> cwd fs" and "\<forall>n. nodes fs (k @ [n]) = None"
  shows "wf_fs (del_node k fs)"
proof -
  have "finite (dom ((nodes fs)(k := None)))"
    using assms(1) by (simp add: wf_fs_def)
  then show ?thesis using assms by (auto simp: wf_fs_def del_node_def)
qed

lemma wf_fs_parent: "wf_fs fs \<Longrightarrow> nodes fs k \<noteq> None \<Longrightarrow> nodes fs (butlast k) = Some Dir"
  by (cases k rule: rev_cases) (auto simp: wf_fs_def)

lemma make_directories_wf:
  assumes "make_directories fs cur cs = Inr fs'" and "wf_fs fs" and "nodes fs cur = Some Dir"
  shows "wf_fs fs' \<and> cwd fs' = cwd fs"
  using assms
proof (induction fs cur cs rule: make_directories.induct)
  case (2 fs cur c cs)
  show ?case
  proof (cases "c = [] \<or> c = ''.'' \<or> c = ''..''")
    case True
    have up: "nodes fs (butlast cur) = Some Dir" using wf_fs_parent [OF "2.prems"(2), of cur] "2.prems"(3) by simp
    show ?thesis
    proof (cases "c = ''..''")
      case True
      then show ?thesis using "2.prems"(1) by (intro "2.IH"(2) [OF _ True _ "2.prems"(2) up]) simp_all
    next
      case False
      with True have stay: "c = [] \<or> c = ''.''" by simp
      with "2.prems"(1) have "make_directories fs cur cs = Inr fs'" by simp
      then show ?thesis by (intro "2.IH"(1) [OF stay _ "2.prems"(2,3)])
    qed
  next
    case False
    show ?thesis
    proof (cases "nodes fs (cur @ [c])")
      case None
      then have "wf_fs (set_node (cur @ [c]) Dir fs)" using "2.prems"(2,3) wf_fs_set_child by simp
      then show ?thesis using "2.IH"(3) "2.prems"(1) False None by (simp add: set_node_def)
    next
      case (Some n)
      then show ?thesis using "2.IH"(4) "2.prems" False by (cases n) simp_all
    qed
  qed
qed simp

lemma path_start_Dir:
  assumes "wf_fs fs"
  shows "nodes fs (path_start fs p) = Some Dir"
proof -
  have "nodes fs [] = Some Dir" "nodes fs (cwd fs) = Some Dir" using assms unfolding wf_fs_def by blast+
  then show ?thesis by (simp add: path_start_def split: list.split)
qed

lemma create_directories_wf:
  assumes "create_directories fs p = Inr fs'" and "wf_fs fs"
  shows "wf_fs fs' \<and> cwd fs' = cwd fs"
proof (rule make_directories_wf [OF _ assms(2) path_start_Dir [OF assms(2)]])
  show "make_directories fs (path_start fs p) (split_path p) = Inr fs'"
    using assms(1) by (simp add: create_directories_def split: if_splits)
qed

text \<open>A path that ends in a plain name leads to an entry of that name in a directory.\<close>

lemma resolve_last:
  assumes "resolve fs (a @ ''/'' @ c) = Some k" and "plain_name c"
  shows "\<exists>d. k = d @ [c] \<and> nodes fs d = Some Dir"
proof -
  have "split_path (a @ ''/'' @ c) = split_path a @ [c]"
    using assms(2) by (simp add: split_path_append_slash split_path_name plain_name_def)
  then show ?thesis
    using assms by (auto simp: resolve_def walk_append walk_plain simp del: walk.simps(2) split: option.splits if_splits)
qed

lemma ofstream_write_wf:
  assumes "wf_fs fs" and "plain_name c"
  shows "wf_fs (ofstream_write fs (a @ ''/'' @ c) data) \<and> cwd (ofstream_write fs (a @ ''/'' @ c) data) = cwd fs"
proof (cases "resolve fs (a @ ''/'' @ c)")
  case (Some k)
  then obtain d where "k = d @ [c]" "nodes fs d = Some Dir" using resolve_last assms(2) by blast
  then show ?thesis
    using Some assms(1) wf_fs_set_child [of fs d c]
    by (auto simp: ofstream_write_def split: option.splits node.splits) (simp_all add: set_node_def)
qed (use assms(1) in \<open>simp add: ofstream_write_def\<close>)

end
