(* ===== verification/Http.thy ===== *)
theory Http
  imports File_System
begin

text \<open>
  HTTP messages as the handlers and the session see them, and the Boost libraries as a
  parameter. \<^verbatim>\<open>http::request<http::string_body>\<close> and
  \<^verbatim>\<open>http::response<http::string_body>\<close> are records of the attributes the program
  reads and writes. Everything Boost computes is a field of the record \<open>boost\<close>, which
  every definition that uses it takes as an argument; the locale \<open>boost_laws\<close> states the
  documented behaviour the program relies on.
\<close>

section \<open>Messages\<close>

datatype verb = verb_get | verb_post | verb_put | verb_delete | verb_other

datatype status =
    status_ok
  | status_bad_request
  | status_unauthorized
  | status_not_found
  | status_internal_server_error

fun status_code :: "status \<Rightarrow> nat" where
  "status_code status_ok = 200"
| "status_code status_bad_request = 400"
| "status_code status_unauthorized = 401"
| "status_code status_not_found = 404"
| "status_code status_internal_server_error = 500"

datatype field =
    field_authorization
  | field_content_length
  | field_content_type
  | field_server
  | field_transfer_encoding
  | field_www_authenticate

text \<open>The header fields in the order of the message: name and value.\<close>

type_synonym fields = "(string \<times> string) list"

record request =
  req_method :: verb
  req_method_string :: string
  req_target :: string
  req_version :: nat
  req_fields :: fields
  req_body :: string

record response =
  res_result :: status
  res_version :: nat
  res_fields :: fields
  res_body :: string

text \<open>\<^verbatim>\<open>http::response<http::string_body>{status, version}\<close>.\<close>

definition make_response :: "status \<Rightarrow> nat \<Rightarrow> response" where
  "make_response st v = \<lparr>res_result = st, res_version = v, res_fields = [], res_body = []\<rparr>"

section \<open>Boost\<close>

text \<open>
  What \<^verbatim>\<open>parser.put\<close> on a fresh request parser, followed by
  \<^verbatim>\<open>is_done\<close> and \<^verbatim>\<open>release\<close>, can give: an error code, a complete request,
  no complete request yet, or an exception.
\<close>

datatype put_result =
    Put_error string
  | Put_done request
  | Put_more
  | Put_throws string

record boost =
  fields_find :: "field \<Rightarrow> fields \<Rightarrow> string option"
  fields_set :: "field \<Rightarrow> string \<Rightarrow> fields \<Rightarrow> fields"
  content_length_fields :: "nat \<Rightarrow> fields \<Rightarrow> fields"
  prepare_payload_fields :: "response \<Rightarrow> fields"
  parser_put :: "string \<Rightarrow> put_result"
  lexical_cast_int :: "string \<Rightarrow> int option"
  bfs_exists :: "file_system \<Rightarrow> string \<Rightarrow> bool"
  bfs_is_regular_file :: "file_system \<Rightarrow> string \<Rightarrow> bool"
  bfs_remove :: "file_system \<Rightarrow> string \<Rightarrow> file_system res"

definition res_set :: "boost \<Rightarrow> field \<Rightarrow> string \<Rightarrow> response \<Rightarrow> response" where
  "res_set B f v r = r\<lparr>res_fields := fields_set B f v (res_fields r)\<rparr>"

definition res_content_length :: "boost \<Rightarrow> nat \<Rightarrow> response \<Rightarrow> response" where
  "res_content_length B n r = r\<lparr>res_fields := content_length_fields B n (res_fields r)\<rparr>"

definition prepare_payload :: "boost \<Rightarrow> response \<Rightarrow> response" where
  "prepare_payload B r = r\<lparr>res_fields := prepare_payload_fields B r\<rparr>"

definition res_find :: "boost \<Rightarrow> field \<Rightarrow> response \<Rightarrow> string option" where
  "res_find B f r = fields_find B f (res_fields r)"

text \<open>
  The documented behaviour the program relies on. Beast: \<^verbatim>\<open>set\<close> replaces the value
  of one field; \<^verbatim>\<open>content_length\<close> and \<^verbatim>\<open>prepare_payload\<close> adjust
  Content-Length and Transfer-Encoding only, and after \<^verbatim>\<open>prepare_payload\<close> on a string
  body Content-Length is the size of the body. Lexical cast: a printed \<^verbatim>\<open>int\<close> is read
  back, and what is read is in the range of \<^verbatim>\<open>int\<close>. Filesystem:
  \<^verbatim>\<open>exists\<close> and \<^verbatim>\<open>is_regular_file\<close> report the status of the path;
  \<^verbatim>\<open>remove\<close> deletes a file or an empty directory, does nothing for a path without a
  file, and throws for a directory with entries.
\<close>

locale boost_laws =
  fixes B :: boost
  assumes find_set: "fields_find B f (fields_set B f v h) = Some v"
    and find_set_other: "f \<noteq> g \<Longrightarrow> fields_find B f (fields_set B g v h) = fields_find B f h"
    and find_content_length_other:
      "f \<noteq> field_content_length \<Longrightarrow> f \<noteq> field_transfer_encoding \<Longrightarrow>
       fields_find B f (content_length_fields B len h) = fields_find B f h"
    and find_prepare_length:
      "fields_find B field_content_length (prepare_payload_fields B r) = Some (nat_to_string (length (res_body r)))"
    and find_prepare_other:
      "f \<noteq> field_content_length \<Longrightarrow> f \<noteq> field_transfer_encoding \<Longrightarrow>
       fields_find B f (prepare_payload_fields B r) = fields_find B f (res_fields r)"
    and lexical_cast_printed:
      "INT_MIN \<le> i \<Longrightarrow> i \<le> INT_MAX \<Longrightarrow> lexical_cast_int B (int_to_string i) = Some i"
    and lexical_cast_range:
      "lexical_cast_int B s = Some i \<Longrightarrow> INT_MIN \<le> i \<and> i \<le> INT_MAX"
    and exists_stat: "bfs_exists B fs p \<longleftrightarrow> stat fs p \<noteq> None"
    and is_regular_stat: "bfs_is_regular_file B fs p \<longleftrightarrow> (\<exists>rd wr txt. stat fs p = Some (File rd wr txt))"
    and remove_file: "resolve fs p = Some k \<Longrightarrow> nodes fs k = Some (File rd wr txt) \<Longrightarrow> bfs_remove B fs p = Inr (del_node k fs)"
    and remove_missing: "stat fs p = None \<Longrightarrow> bfs_remove B fs p = Inr fs"
    and remove_empty_directory:
      "resolve fs p = Some k \<Longrightarrow> nodes fs k = Some Dir \<Longrightarrow> \<forall>n. nodes fs (k @ [n]) = None \<Longrightarrow>
       bfs_remove B fs p = Inr (del_node k fs)"
    and remove_directory:
      "resolve fs p = Some k \<Longrightarrow> nodes fs k = Some Dir \<Longrightarrow> nodes fs (k @ [n]) \<noteq> None \<Longrightarrow>
       bfs_remove B fs p = Inl Exception_Thrown"
begin

lemma res_find_set [simp]: "res_find B f (res_set B g v r) = (if f = g then Some v else res_find B f r)"
  by (simp add: res_find_def res_set_def find_set find_set_other)

lemma res_find_prepare_length [simp]:
  "res_find B field_content_length (prepare_payload B r) = Some (nat_to_string (length (res_body r)))"
  by (simp add: res_find_def prepare_payload_def find_prepare_length)

lemma res_find_prepare [simp]:
  "f \<noteq> field_content_length \<Longrightarrow> f \<noteq> field_transfer_encoding \<Longrightarrow>
   res_find B f (prepare_payload B r) = res_find B f r"
  by (simp add: res_find_def prepare_payload_def find_prepare_other)

lemma res_find_content_length [simp]:
  "f \<noteq> field_content_length \<Longrightarrow> f \<noteq> field_transfer_encoding \<Longrightarrow>
   res_find B f (res_content_length B n r) = res_find B f r"
  by (simp add: res_find_def res_content_length_def find_content_length_other)

lemma is_regular_case:
  "bfs_is_regular_file B fs p = (case stat fs p of Some (File rd wr txt) \<Rightarrow> True | _ \<Rightarrow> False)"
  using is_regular_stat [of fs p] by (auto split: option.splits node.splits)

end

text \<open>Attributes of a response other than its header fields.\<close>

lemma res_attributes [simp]:
  "res_result (res_set B f v r) = res_result r" "res_version (res_set B f v r) = res_version r"
  "res_body (res_set B f v r) = res_body r"
  "res_result (res_content_length B n r) = res_result r" "res_version (res_content_length B n r) = res_version r"
  "res_body (res_content_length B n r) = res_body r"
  "res_result (prepare_payload B r) = res_result r" "res_version (prepare_payload B r) = res_version r"
  "res_body (prepare_payload B r) = res_body r"
  by (simp_all add: res_set_def res_content_length_def prepare_payload_def)

lemma res_find_update [simp]:
  "res_find B f (r\<lparr>res_result := s\<rparr>) = res_find B f r" "res_find B f (r\<lparr>res_version := v\<rparr>) = res_find B f r"
  "res_find B f (r\<lparr>res_body := b\<rparr>) = res_find B f r"
  by (simp_all add: res_find_def)

section \<open>A Boost that obeys the laws\<close>

text \<open>
  A reference instance: header fields as an association list under the standard names, decimal
  reading, and the file system functions by their meaning. Its request parser is a table
  supplied as an argument.
\<close>

fun field_name :: "field \<Rightarrow> string" where
  "field_name field_authorization = ''Authorization''"
| "field_name field_content_length = ''Content-Length''"
| "field_name field_content_type = ''Content-Type''"
| "field_name field_server = ''Server''"
| "field_name field_transfer_encoding = ''Transfer-Encoding''"
| "field_name field_www_authenticate = ''WWW-Authenticate''"

lemma field_name_inj [simp]: "field_name f = field_name g \<longleftrightarrow> f = g"
  by (cases f; cases g; simp)

definition ref_set :: "field \<Rightarrow> string \<Rightarrow> fields \<Rightarrow> fields" where
  "ref_set f v h = filter (\<lambda>p. fst p \<noteq> field_name f) h @ [(field_name f, v)]"

definition ref_lexical_cast :: "string \<Rightarrow> int option" where
  "ref_lexical_cast s =
     (let signed = (case s of c # _ \<Rightarrow> c = CHR ''-'' \<or> c = CHR ''+'' | [] \<Rightarrow> False);
          ds = (if signed then tl s else s)
      in if ds \<noteq> [] \<and> list_all isdigit ds
         then (case atoi s of Inl e \<Rightarrow> None | Inr i \<Rightarrow> Some i) else None)"

definition ref_remove :: "file_system \<Rightarrow> string \<Rightarrow> file_system res" where
  "ref_remove fs p =
     (case resolve fs p of
        None \<Rightarrow> Inr fs
      | Some k \<Rightarrow>
          (case nodes fs k of
             None \<Rightarrow> Inr fs
           | Some (File r w c) \<Rightarrow> Inr (del_node k fs)
           | Some Dir \<Rightarrow> (if \<exists>c. nodes fs (k @ [c]) \<noteq> None then Inl Exception_Thrown else Inr (del_node k fs))))"

definition ref_boost :: "(string \<Rightarrow> put_result) \<Rightarrow> boost" where
  "ref_boost put = \<lparr>
     fields_find = (\<lambda>f h. map_of h (field_name f)),
     fields_set = ref_set,
     content_length_fields = (\<lambda>n h. ref_set field_content_length (nat_to_string n) h),
     prepare_payload_fields = (\<lambda>r. ref_set field_content_length (nat_to_string (length (res_body r))) (res_fields r)),
     parser_put = put,
     lexical_cast_int = ref_lexical_cast,
     bfs_exists = (\<lambda>fs p. stat fs p \<noteq> None),
     bfs_is_regular_file = (\<lambda>fs p. case stat fs p of Some (File r w c) \<Rightarrow> True | _ \<Rightarrow> False),
     bfs_remove = ref_remove\<rparr>"

lemma parser_put_ref [simp]: "parser_put (ref_boost put) s = put s"
  by (simp add: ref_boost_def)

lemma map_of_ref_set: "map_of (ref_set f v h) (field_name g) = (if f = g then Some v else map_of h (field_name g))"
proof -
  have "map_of (filter (\<lambda>p. fst p \<noteq> x) h) y = (if x = y then None else map_of h y)" for x y
    by (induction h) auto
  moreover have "field_name g = field_name f \<longleftrightarrow> f = g" by auto
  ultimately show ?thesis by (auto simp: ref_set_def map_add_def split: option.splits)
qed

lemma atoi_range: "atoi s = Inr i \<Longrightarrow> INT_MIN \<le> i \<and> i \<le> INT_MAX"
  by (auto simp: atoi_def Let_def split: if_splits)

lemma ref_lexical_cast_printed:
  assumes "INT_MIN \<le> i" and "i \<le> INT_MAX"
  shows "ref_lexical_cast (int_to_string i) = Some i"
proof (cases "i < 0")
  case True
  then show ?thesis
    using atoi_int_to_string [OF assms] nat_to_string_digits
    by (auto simp: ref_lexical_cast_def int_to_string_def list_all_iff)
next
  case False
  obtain c cs where ns: "nat_to_string (nat i) = c # cs"
    by (metis list.exhaust nat_to_string_nonempty)
  then have "\<forall>x\<in>set (c # cs). isdigit x" using nat_to_string_digits by metis
  moreover from this have "c \<noteq> CHR ''-''" "c \<noteq> CHR ''+''" by (auto simp: isdigit_def)
  ultimately show ?thesis
    using False atoi_int_to_string [OF assms] by (simp add: ref_lexical_cast_def int_to_string_def ns list_all_iff)
qed

interpretation ref: boost_laws "ref_boost put" for put
proof (unfold_locales, goal_cases)
  case (4 r)
  show ?case using map_of_ref_set [of field_content_length _ _ field_content_length] by (simp add: ref_boost_def)
next
  case (6 i)
  then show ?case by (simp add: ref_boost_def ref_lexical_cast_printed)
next
  case (7 s i)
  then show ?case
    by (auto simp: ref_boost_def ref_lexical_cast_def Let_def atoi_range split: if_splits sum.splits dest: atoi_range)
qed (auto simp: ref_boost_def map_of_ref_set ref_remove_def stat_def split: option.splits node.splits)

end
