(* ===== verification/Logger.thy ===== *)
theory Logger
  imports Http
begin

text \<open>
  \<^verbatim>\<open>Logger\<close> of \<^verbatim>\<open>src/logger.{h,cc}\<close>: a lazily created singleton that
  hands records to Boost.Log. The model keeps how many sinks have been added to the logging core
  and the sequence of records submitted; formatting, files and rotation belong to Boost.Log.
\<close>

datatype severity_level = sev_trace | sev_debug | sev_info | sev_warning | sev_error | sev_fatal

record Logger =
  file_sinks :: nat
  console_sinks :: nat
  records :: "(severity_level \<times> string) list"

text \<open>\<^verbatim>\<open>init\<close> adds a file sink and a console sink each time it is called.\<close>

definition Logger_init :: "Logger \<Rightarrow> Logger" where
  "Logger_init L = L\<lparr>file_sinks := file_sinks L + 1, console_sinks := console_sinks L + 1\<rparr>"

definition new_Logger :: Logger where
  "new_Logger = Logger_init \<lparr>file_sinks = 0, console_sinks = 0, records = []\<rparr>"

text \<open>The static pointer \<^verbatim>\<open>Logger::logger\<close>, null at the start of the program.\<close>

type_synonym logger_ptr = "Logger option"

definition getLogger :: "logger_ptr \<Rightarrow> logger_ptr" where
  "getLogger p = (if p = None then Some new_Logger else p)"

definition log_sev :: "severity_level \<Rightarrow> string \<Rightarrow> logger_ptr \<Rightarrow> logger_ptr" where
  "log_sev sev msg p = map_option (\<lambda>L. L\<lparr>records := records L @ [(sev, msg)]\<rparr>) p"

definition logServerInitialization :: "logger_ptr \<Rightarrow> logger_ptr" where
  "logServerInitialization p = log_sev sev_trace ''Server has been initialized'' p"

definition logTraceFile :: "string \<Rightarrow> logger_ptr \<Rightarrow> logger_ptr" where
  "logTraceFile trace_message p = log_sev sev_trace (''Trace: '' @ trace_message) p"

definition logErrorFile :: "string \<Rightarrow> logger_ptr \<Rightarrow> logger_ptr" where
  "logErrorFile error_message p = log_sev sev_error (''Error: '' @ error_message) p"

definition logDebugFile :: "string \<Rightarrow> logger_ptr \<Rightarrow> logger_ptr" where
  "logDebugFile debug_message p = log_sev sev_debug (''Debug: '' @ debug_message) p"

definition logResponse :: "string \<Rightarrow> logger_ptr \<Rightarrow> logger_ptr" where
  "logResponse response_message p = log_sev sev_info (''ResponseMetrics: '' @ response_message) p"

definition logWarningFile :: "string \<Rightarrow> logger_ptr \<Rightarrow> logger_ptr" where
  "logWarningFile warning_message p = log_sev sev_warning (''Warning: '' @ warning_message) p"

definition logSig :: "logger_ptr \<Rightarrow> logger_ptr" where
  "logSig p = log_sev sev_warning ''Shutting down the server...'' p"

definition logTrace :: "logger_ptr \<Rightarrow> logger_ptr" where
  "logTrace p = log_sev sev_trace ''This is a trace severity message'' p"

definition logDebug :: "logger_ptr \<Rightarrow> logger_ptr" where
  "logDebug p = log_sev sev_debug ''This is a debug severity message'' p"

definition logWarning :: "logger_ptr \<Rightarrow> logger_ptr" where
  "logWarning p = log_sev sev_warning ''This is a warning severity message'' p"

definition logError :: "logger_ptr \<Rightarrow> logger_ptr" where
  "logError p = log_sev sev_error ''This is a error severity message'' p"

definition logFatal :: "logger_ptr \<Rightarrow> logger_ptr" where
  "logFatal p = log_sev sev_fatal ''This is a fatal severity message'' p"

definition logTraceHTTPrequest :: "request \<Rightarrow> logger_ptr \<Rightarrow> logger_ptr" where
  "logTraceHTTPrequest req p =
     log_sev sev_trace (''Trace: '' @ req_method_string req @ '' '' @ req_target req @ '' HTTP '' @
       nat_to_string (req_version req div 10) @ ''.'' @ nat_to_string (req_version req mod 10)) p"

lemmas log_ops =
  logServerInitialization_def logTraceFile_def logErrorFile_def logDebugFile_def logResponse_def logWarningFile_def
  logSig_def logTrace_def logDebug_def logWarning_def logError_def logFatal_def logTraceHTTPrequest_def

section \<open>What the log holds\<close>

definition log_of :: "logger_ptr \<Rightarrow> (severity_level \<times> string) list" where
  "log_of p = (case p of None \<Rightarrow> [] | Some L \<Rightarrow> records L)"

text \<open>One file sink and one console sink: every record is written once to each.\<close>

definition logger_inv :: "logger_ptr \<Rightarrow> bool" where
  "logger_inv p \<longleftrightarrow> (case p of None \<Rightarrow> True | Some L \<Rightarrow> file_sinks L = 1 \<and> console_sinks L = 1)"

named_theorems logger_simps \<open>the log after each operation\<close>

lemma log_of_getLogger [simp, logger_simps]: "log_of (getLogger p) = log_of p"
  by (auto simp: log_of_def getLogger_def new_Logger_def Logger_init_def)

lemma log_of_log_sev [logger_simps]: "p \<noteq> None \<Longrightarrow> log_of (log_sev sev msg p) = log_of p @ [(sev, msg)]"
  by (auto simp: log_of_def log_sev_def)

lemma getLogger_not_None [simp, logger_simps]: "getLogger p \<noteq> None"
  by (simp add: getLogger_def)

lemma log_sev_None_iff [simp, logger_simps]: "log_sev sev msg p = None \<longleftrightarrow> p = None"
  by (simp add: log_sev_def)

lemma logger_inv_getLogger [simp]: "logger_inv p \<Longrightarrow> logger_inv (getLogger p)"
  by (auto simp: logger_inv_def getLogger_def new_Logger_def Logger_init_def)

lemma logger_inv_log_sev [simp]: "logger_inv p \<Longrightarrow> logger_inv (log_sev sev msg p)"
  by (auto simp: logger_inv_def log_sev_def split: option.splits)

lemma getLogger_Some [simp]: "p \<noteq> None \<Longrightarrow> getLogger p = p"
  by (simp add: getLogger_def)

end
