(* ===== verification/File_Storage.thy ===== *)
theory File_Storage
  imports Http
begin

text \<open>
  \<^verbatim>\<open>FileStorage\<close> of \<^verbatim>\<open>src/api/file_storage.cc\<close>: one file per entity and
  id under a base path, and where its paths lead when the base path names a directory.
\<close>

section \<open>The class\<close>

definition getPath :: "string \<Rightarrow> string \<Rightarrow> int \<Rightarrow> string" where
  "getPath base_path entity ident = base_path @ entity @ ''/'' @ int_to_string ident"

definition FileStorage_write :: "string \<Rightarrow> file_system \<Rightarrow> string \<Rightarrow> int \<Rightarrow> string \<Rightarrow> file_system res" where
  "FileStorage_write base_path fs entity ident data =
     (let path = getPath base_path entity ident in
      bind_res (create_directories fs (parent_path path)) (\<lambda>fs.
      Inr (ofstream_write fs path data)))"

definition FileStorage_read :: "string \<Rightarrow> file_system \<Rightarrow> string \<Rightarrow> int \<Rightarrow> string" where
  "FileStorage_read base_path fs entity ident =
     (case ifstream_read fs (getPath base_path entity ident) of None \<Rightarrow> [] | Some buffer \<Rightarrow> buffer)"

definition FileStorage_remove :: "boost \<Rightarrow> string \<Rightarrow> file_system \<Rightarrow> string \<Rightarrow> int \<Rightarrow> file_system res" where
  "FileStorage_remove B base_path fs entity ident = bfs_remove B fs (getPath base_path entity ident)"

section \<open>Where the paths lead\<close>

text \<open>
  The base path is \<open>b\<close> with a final slash and names the directory \<open>r\<close>. Below it
  every collection is a directory and every item of a collection a readable and writable file.
\<close>

definition store_inv :: "string \<Rightarrow> location \<Rightarrow> file_system \<Rightarrow> bool" where
  "store_inv b r fs \<longleftrightarrow>
     wf_fs fs \<and> walk fs (path_start fs (b @ ''/'')) (split_path b) = Some r \<and> nodes fs r = Some Dir \<and>
     (\<forall>n. plain_name n \<longrightarrow> nodes fs (r @ [n]) \<in> {None, Some Dir}) \<and>
     (\<forall>n i x. plain_name n \<longrightarrow> nodes fs (r @ [n, int_to_string i]) = Some x \<longrightarrow> (\<exists>c. x = File True True c))"

text \<open>The collection an entity argument names: \<^verbatim>\<open>shoes\<close> and \<^verbatim>\<open>/shoes\<close> are the same.\<close>

definition entity_key :: "string \<Rightarrow> string option" where
  "entity_key e =
     (if plain_name e then Some e
      else case e of c # n \<Rightarrow> (if c = CHR ''/'' \<and> plain_name n then Some n else None) | [] \<Rightarrow> None)"

definition store_abs :: "location \<Rightarrow> file_system \<Rightarrow> (string \<times> int) \<rightharpoonup> string" where
  "store_abs r fs = (\<lambda>(n, i).
     if plain_name n then
       (case nodes fs (r @ [n, int_to_string i]) of Some (File rd wr c) \<Rightarrow> Some c | _ \<Rightarrow> None)
     else None)"

lemma entity_keyE:
  assumes "entity_key e = Some n"
  obtains "plain_name n" and "e = n" | "plain_name n" and "e = CHR ''/'' # n"
  using assms by (auto simp: entity_key_def split: if_splits list.splits)

lemma entity_key_plain: "entity_key e = Some n \<Longrightarrow> plain_name n"
  by (erule entity_keyE) auto

lemma path_start_append: "path_start fs (b @ CHR ''/'' # s) = path_start fs (b @ ''/'')"
  by (cases b) (auto simp: path_start_def)

lemma plain_name_id [simp]: "plain_name (int_to_string i)"
proof (cases "0 \<le> i")
  case False
  then show ?thesis
    using nat_to_string_digits isdigit_not_slash by (auto simp: plain_name_def int_to_string_def)
qed simp

lemma split_path_getPath:
  assumes "entity_key e = Some n"
  shows "\<exists>pre. split_path (getPath (b @ ''/'') e i) = split_path b @ pre @ [n, int_to_string i] \<and> set pre \<subseteq> {[]}"
  using assms
proof (rule entity_keyE)
  assume "plain_name n" "e = n"
  then show ?thesis
    by (intro exI [of _ "[]"]) (simp add: getPath_def split_path_append_slash split_path_name plain_name_def)
next
  assume "plain_name n" "e = CHR ''/'' # n"
  then show ?thesis
    by (intro exI [of _ "[[]]"]) (simp add: getPath_def split_path_append_slash split_path_name plain_name_def)
qed

lemma walk_empty_components [simp]:
  "set pre \<subseteq> {[]} \<Longrightarrow> nodes fs k = Some Dir \<Longrightarrow> walk fs k pre = Some k"
  by (induction pre) auto

lemma plain_name_last: "plain_name n \<Longrightarrow> last n \<noteq> CHR ''/''"
  by (metis last_in_set plain_name_def)

lemma resolve_getPath:
  assumes "store_inv b r fs" and "entity_key e = Some n"
  shows "resolve fs (getPath (b @ ''/'') e i) =
         (if nodes fs (r @ [n]) = Some Dir then Some (r @ [n, int_to_string i]) else None)"
proof -
  obtain pre where pre: "split_path (getPath (b @ ''/'') e i) = split_path b @ pre @ [n, int_to_string i]"
      "set pre \<subseteq> {[]}"
    using split_path_getPath [OF assms(2)] by blast
  have "path_start fs (getPath (b @ ''/'') e i) = path_start fs (b @ ''/'')"
    using path_start_append [of fs b "e @ ''/'' @ int_to_string i"] by (simp add: getPath_def)
  then have "resolve fs (getPath (b @ ''/'') e i) = walk fs r [n, int_to_string i]"
    using assms(1) pre
    by (simp add: resolve_def getPath_def walk_append store_inv_def del: walk.simps(2))
  then show ?thesis
    using assms(1) entity_key_plain [OF assms(2)]
    by (simp add: walk_plain store_inv_def del: walk.simps(2))
qed

lemma stat_getPath:
  assumes "store_inv b r fs" and "entity_key e = Some n"
  shows "stat fs (getPath (b @ ''/'') e i) = nodes fs (r @ [n, int_to_string i])"
proof -
  have "nodes fs ((r @ [n]) @ [int_to_string i]) \<noteq> None \<Longrightarrow> nodes fs (r @ [n]) = Some Dir"
    using assms(1) unfolding store_inv_def wf_fs_def by blast
  then show ?thesis
    using resolve_getPath [OF assms, of i] by (cases "nodes fs (r @ [n, int_to_string i])") (auto simp: stat_def)
qed

lemma store_inv_item:
  assumes "store_inv b r fs" and "plain_name n"
  shows "nodes fs (r @ [n, int_to_string i]) = None \<or>
         (\<exists>c. nodes fs (r @ [n, int_to_string i]) = Some (File True True c))"
  using assms by (cases "nodes fs (r @ [n, int_to_string i])") (auto simp: store_inv_def)

lemma stat_getPath_abs:
  assumes "store_inv b r fs" and "entity_key e = Some n"
  shows "stat fs (getPath (b @ ''/'') e i) = map_option (File True True) (store_abs r fs (n, i))"
proof -
  have "nodes fs (r @ [n, int_to_string i]) = None \<or>
      (\<exists>c. nodes fs (r @ [n, int_to_string i]) = Some (File True True c))"
    by (rule store_inv_item [OF assms(1) entity_key_plain [OF assms(2)]])
  then show ?thesis
    using stat_getPath [OF assms, of i] entity_key_plain [OF assms(2)] by (auto simp: store_abs_def)
qed

lemma parent_path_getPath:
  assumes "entity_key e = Some n"
  shows "parent_path (getPath (b @ ''/'') e i) = b @ ''/'' @ e"
proof -
  have "find_last_of CHR ''/'' (getPath (b @ ''/'') e i) = Some (length (b @ ''/'' @ e))"
    using find_last_of_append_notin [of "CHR ''/''" "int_to_string i" "b @ ''/'' @ e"] by (simp add: getPath_def)
  moreover have "e \<noteq> [] \<and> last e \<noteq> CHR ''/''"
    using assms by (rule entity_keyE) (auto simp: plain_name_last plain_name_def)
  then have "strip_slashes (b @ CHR ''/'' # e) = b @ CHR ''/'' # e"
    by (subst strip_slashes.simps) simp
  ultimately show ?thesis by (simp add: parent_path_def getPath_def)
qed

section \<open>Writing and removing keep the store\<close>

lemma nodes_set_node [simp]: "nodes (set_node k n fs) = (nodes fs)(k \<mapsto> n)"
  by (simp add: set_node_def)

lemma nodes_del_node [simp]: "nodes (del_node k fs) = (nodes fs)(k := None)"
  by (simp add: del_node_def)

lemma cwd_set_node [simp]: "cwd (set_node k n fs) = cwd fs" "cwd (del_node k fs) = cwd fs"
  by (simp_all add: set_node_def del_node_def)

lemma wf_fs_set_node:
  assumes "wf_fs fs" and "nodes fs k = Some Dir" and "n = Dir \<or> nodes fs (k @ [c]) \<noteq> Some Dir"
  shows "wf_fs (set_node (k @ [c]) n fs)"
proof -
  have child: "nodes fs (k @ [c]) = Some Dir" if "nodes fs (k @ [c, x]) = Some y" for x y
  proof -
    have "nodes fs ((k @ [c]) @ [x]) \<noteq> None" using that by simp
    then show ?thesis using assms(1) unfolding wf_fs_def by blast
  qed
  show ?thesis using assms unfolding wf_fs_def by (auto dest: child)
qed

lemma wf_fs_del_file:
  assumes "wf_fs fs" and "nodes fs k = Some (File rd wr txt)"
  shows "wf_fs (del_node k fs)"
proof -
  have "nodes fs (k @ [x]) = None" for x
    using assms unfolding wf_fs_def by (metis node.distinct(1) option.inject)
  then show ?thesis using assms unfolding wf_fs_def by auto
qed

lemma walk_set_node:
  assumes "walk fs cur cs = Some k" and "n = Dir \<or> nodes fs l \<noteq> Some Dir"
  shows "walk (set_node l n fs) cur cs = Some k"
  using assms(1) by (rule walk_mono) (use assms(2) in auto)

lemma path_start_set_node [simp]:
  "path_start (set_node l n fs) p = path_start fs p" "path_start (del_node l fs) p = path_start fs p"
  by (auto simp: path_start_def split: list.splits)

lemma store_inv_make_collection:
  assumes inv: "store_inv b r fs" and n: "plain_name n" and new: "nodes fs (r @ [n]) = None"
  shows "store_inv b r (set_node (r @ [n]) Dir fs)" and "store_abs r (set_node (r @ [n]) Dir fs) = store_abs r fs"
proof -
  have "wf_fs (set_node (r @ [n]) Dir fs)"
    using inv wf_fs_set_node by (auto simp: store_inv_def)
  moreover have "walk (set_node (r @ [n]) Dir fs) (path_start fs (b @ ''/'')) (split_path b) = Some r"
    using inv walk_set_node by (auto simp: store_inv_def)
  ultimately show "store_inv b r (set_node (r @ [n]) Dir fs)"
    using inv by (auto simp: store_inv_def)
  show "store_abs r (set_node (r @ [n]) Dir fs) = store_abs r fs"
    by (rule ext) (auto simp: store_abs_def)
qed

lemma store_inv_write_item:
  fixes i :: int and d :: string
  assumes inv: "store_inv b r fs" and n: "plain_name n" and dir: "nodes fs (r @ [n]) = Some Dir"
  defines "fs' \<equiv> set_node (r @ [n, int_to_string i]) (File True True d) fs"
  shows "store_inv b r fs'" and "store_abs r fs' = (store_abs r fs)((n, i) \<mapsto> d)"
proof -
  have notdir: "nodes fs ((r @ [n]) @ [int_to_string i]) \<noteq> Some Dir"
    using inv n unfolding store_inv_def by fastforce
  have "wf_fs fs'"
    using wf_fs_set_node [OF _ dir, of "File True True d" "int_to_string i"] inv notdir
    by (simp add: fs'_def store_inv_def)
  moreover have "walk fs' (path_start fs (b @ ''/'')) (split_path b) = Some r"
    unfolding fs'_def using inv notdir by (intro walk_set_node) (auto simp: store_inv_def)
  ultimately show "store_inv b r fs'"
    using inv by (auto simp: store_inv_def fs'_def)
  show "store_abs r fs' = (store_abs r fs)((n, i) \<mapsto> d)"
    using n by (simp add: fun_eq_iff store_abs_def fs'_def)
qed

lemma create_directories_collection:
  assumes inv: "store_inv b r fs" and key: "entity_key e = Some n"
  shows "create_directories fs (b @ ''/'' @ e) =
         Inr (if nodes fs (r @ [n]) = Some Dir then fs else set_node (r @ [n]) Dir fs)"
proof -
  obtain pre where sp: "split_path (b @ ''/'' @ e) = split_path b @ pre @ [n]" and pre: "set pre \<subseteq> {[]}"
    using key
  proof (rule entity_keyE)
    assume "plain_name n" "e = n"
    then show thesis
      by (intro that [of "[]"]) (simp_all add: split_path_append_slash split_path_name plain_name_def)
  next
    assume "plain_name n" "e = CHR ''/'' # n"
    then show thesis
      by (intro that [of "[[]]"]) (simp_all add: split_path_append_slash split_path_name plain_name_def)
  qed
  have st: "path_start fs (b @ ''/'' @ e) = path_start fs (b @ ''/'')"
    using path_start_append [of fs b e] by simp
  have w: "walk fs (path_start fs (b @ ''/'')) (split_path b @ pre) = Some r" and dir: "nodes fs r = Some Dir"
    and wf: "wf_fs fs"
    using inv pre by (auto simp: store_inv_def walk_append)
  have "create_directories fs (b @ ''/'' @ e) = make_directories fs r [n]"
    using make_directories_existing [OF w dir wf, of "[n]"] st sp
    by (simp add: create_directories_def del: make_directories.simps)
  moreover have "nodes fs (r @ [n]) \<in> {None, Some Dir}"
    using inv entity_key_plain [OF key] by (auto simp: store_inv_def)
  ultimately show ?thesis
    using entity_key_plain [OF key] by (auto simp: plain_name_def)
qed

lemma FileStorage_write_store:
  assumes inv: "store_inv b r fs" and key: "entity_key e = Some n"
  shows "\<exists>fs'. FileStorage_write (b @ ''/'') fs e i d = Inr fs' \<and> store_inv b r fs' \<and>
               store_abs r fs' = (store_abs r fs)((n, i) \<mapsto> d)"
proof -
  note n = entity_key_plain [OF key]
  define fs1 where "fs1 = (if nodes fs (r @ [n]) = Some Dir then fs else set_node (r @ [n]) Dir fs)"
  have dir_or: "nodes fs (r @ [n]) \<in> {None, Some Dir}" using inv n by (auto simp: store_inv_def)
  have fs1: "store_inv b r fs1" "store_abs r fs1 = store_abs r fs" "nodes fs1 (r @ [n]) = Some Dir"
    using dir_or inv store_inv_make_collection [OF inv n] by (auto simp: fs1_def)
  have res: "resolve fs1 (getPath (b @ ''/'') e i) = Some (r @ [n, int_to_string i])"
    using resolve_getPath [OF fs1(1) key] fs1(3) by simp
  have "nodes fs1 (r @ [n, int_to_string i]) = None \<or>
      (\<exists>c. nodes fs1 (r @ [n, int_to_string i]) = Some (File True True c))"
    using store_inv_item [OF fs1(1) n] by blast
  then have "ofstream_write fs1 (getPath (b @ ''/'') e i) d =
      set_node (r @ [n, int_to_string i]) (File True True d) fs1"
    using res by (auto simp: ofstream_write_def)
  then have "FileStorage_write (b @ ''/'') fs e i d = Inr (set_node (r @ [n, int_to_string i]) (File True True d) fs1)"
    using create_directories_collection [OF inv key]
    by (simp add: FileStorage_write_def parent_path_getPath [OF key, simplified] fs1_def Let_def)
  then show ?thesis
    using store_inv_write_item [OF fs1(1) n fs1(3), of i d] fs1(2) by auto
qed


section \<open>Any target\<close>

text \<open>
  Whatever base path and entity, \<^verbatim>\<open>..\<close> and slashes included: writing and removing keep
  the tree of directories, as long as the working directory does not have a number as its name.
\<close>

definition safe_cwd :: "file_system \<Rightarrow> bool" where
  "safe_cwd fs \<longleftrightarrow> wf_fs fs \<and> (cwd fs = [] \<or> last (cwd fs) \<notin> range int_to_string)"

lemma getPath_last: "getPath base e i = (base @ e) @ ''/'' @ int_to_string i"
  by (simp add: getPath_def)

lemma FileStorage_write_wf:
  assumes "FileStorage_write base fs e i data = Inr fs'" and "safe_cwd fs"
  shows "safe_cwd fs'"
proof -
  obtain fs1 where fs1: "create_directories fs (parent_path (getPath base e i)) = Inr fs1" "fs' = ofstream_write fs1 (getPath base e i) data"
    using assms(1) by (auto simp: FileStorage_write_def Let_def bind_res_eq_Inr_iff)
  then have "wf_fs fs1 \<and> cwd fs1 = cwd fs" using create_directories_wf assms(2) by (simp add: safe_cwd_def)
  then show ?thesis
    using ofstream_write_wf [of fs1 "int_to_string i" "base @ e" data] assms(2) fs1(2) by (simp add: safe_cwd_def getPath_last)
qed

lemma remove_leaf:
  assumes B: "boost_laws B" and "wf_fs fs" and rm: "bfs_remove B fs p = Inr fs'"
  shows "fs' = fs \<or> (\<exists>k. resolve fs p = Some k \<and> fs' = del_node k fs \<and> (\<forall>c. nodes fs (k @ [c]) = None))"
proof (cases "stat fs p")
  case None
  then show ?thesis using boost_laws.remove_missing [OF B None] rm by simp
next
  case (Some n)
  then obtain k where k: "resolve fs p = Some k" "nodes fs k = Some n" by (auto simp: stat_def split: option.splits)
  show ?thesis
  proof (cases n)
    case (File rd wr data)
    then have "nodes fs (k @ [c]) = None" for c using assms(2) k(2) unfolding wf_fs_def by (metis node.distinct(1) option.inject)
    then show ?thesis using boost_laws.remove_file [OF B k(1)] k File rm by auto
  next
    case Dir
    then show ?thesis
      using boost_laws.remove_empty_directory [OF B k(1)] boost_laws.remove_directory [OF B k(1)] k rm
      by (cases "\<forall>c. nodes fs (k @ [c]) = None") auto
  qed
qed

lemma FileStorage_remove_wf:
  assumes "boost_laws B" and "FileStorage_remove B base fs e i = Inr fs'" and "safe_cwd fs"
  shows "safe_cwd fs'"
proof -
  have "wf_fs fs" "bfs_remove B fs (getPath base e i) = Inr fs'" using assms(2,3) by (simp_all add: FileStorage_remove_def safe_cwd_def)
  from remove_leaf [OF assms(1) this] consider "fs' = fs"
    | k where "resolve fs (getPath base e i) = Some k" "fs' = del_node k fs" "\<forall>c. nodes fs (k @ [c]) = None"
    by blast
  then show ?thesis
  proof cases
    case (2 k)
    then have "last k \<in> range int_to_string" "k \<noteq> []" using resolve_last [of fs "base @ e" "int_to_string i" k] by (auto simp: getPath_last)
    moreover from this have "k \<noteq> cwd fs" using assms(3) by (auto simp: safe_cwd_def)
    ultimately show ?thesis using wf_fs_del_leaf [OF _ _ _ 2(3)] assms(3) 2(2) by (auto simp: safe_cwd_def del_node_def)
  qed (use assms(3) in simp)
qed

end
