(* ===== verification/Crud_Handler.thy ===== *)
theory Crud_Handler
  imports File_Storage
begin

text \<open>
  \<^verbatim>\<open>ICRUDHandler\<close> and \<^verbatim>\<open>CRUDHandler\<close> of
  \<^verbatim>\<open>src/api/crud_handler.{h,cc}\<close>. The interface class is a record of its virtual
  methods over a state type; its contract is the locale \<open>crud_store\<close>: a finite collection
  of numbered items per entity. \<open>CRUDHandler\<close> fulfils the contract on the file system.
\<close>

section \<open>The interface\<close>

record 's ICRUDHandler =
  crud_create :: "'s \<Rightarrow> string \<Rightarrow> string \<Rightarrow> (string \<times> 's) res"
  crud_read :: "'s \<Rightarrow> string \<Rightarrow> int \<Rightarrow> string"
  crud_update :: "'s \<Rightarrow> string \<Rightarrow> int \<Rightarrow> string \<Rightarrow> (bool \<times> 's) res"
  crud_delete :: "'s \<Rightarrow> string \<Rightarrow> int \<Rightarrow> (bool \<times> 's) res"
  crud_exists :: "'s \<Rightarrow> string \<Rightarrow> int \<Rightarrow> bool"

section \<open>The implementation\<close>

definition CRUDHandler_exists :: "boost \<Rightarrow> string \<Rightarrow> file_system \<Rightarrow> string \<Rightarrow> int \<Rightarrow> bool" where
  "CRUDHandler_exists B base_path fs entity ident =
     (if bfs_exists B fs (getPath base_path entity ident) then True else False)"

text \<open>\<^verbatim>\<open>++id\<close> past the largest \<^verbatim>\<open>int\<close> is signed overflow.\<close>

function getNextId_loop :: "boost \<Rightarrow> string \<Rightarrow> file_system \<Rightarrow> string \<Rightarrow> int \<Rightarrow> int res" where
  "getNextId_loop B base_path fs entity ident =
     (if bfs_exists B fs (getPath base_path entity ident)
      then (if ident \<ge> INT_MAX then Inl Int_Overflow else getNextId_loop B base_path fs entity (ident + 1))
      else Inr ident)"
  by pat_completeness auto
termination
  by (relation "measure (\<lambda>(_, _, _, _, ident). nat (INT_MAX - ident))") auto

declare getNextId_loop.simps [simp del]

definition getNextId :: "boost \<Rightarrow> string \<Rightarrow> file_system \<Rightarrow> string \<Rightarrow> int res" where
  "getNextId B base_path fs entity = getNextId_loop B base_path fs entity 1"

definition id_json :: "int \<Rightarrow> string" where
  "id_json ident = ''{'' @ [CHR 0x22] @ ''id'' @ [CHR 0x22] @ '': '' @ int_to_string ident @ ''}''"

definition CRUDHandler_create :: "boost \<Rightarrow> string \<Rightarrow> file_system \<Rightarrow> string \<Rightarrow> string \<Rightarrow> (string \<times> file_system) res" where
  "CRUDHandler_create B base_path fs entity data =
     bind_res (getNextId B base_path fs entity) (\<lambda>ident.
     bind_res (FileStorage_write base_path fs entity ident data) (\<lambda>fs.
     Inr (id_json ident, fs)))"

definition CRUDHandler_read :: "string \<Rightarrow> file_system \<Rightarrow> string \<Rightarrow> int \<Rightarrow> string" where
  "CRUDHandler_read base_path fs entity ident = FileStorage_read base_path fs entity ident"

definition CRUDHandler_update :: "boost \<Rightarrow> string \<Rightarrow> file_system \<Rightarrow> string \<Rightarrow> int \<Rightarrow> string \<Rightarrow> (bool \<times> file_system) res" where
  "CRUDHandler_update B base_path fs entity ident data =
     (if \<not> CRUDHandler_exists B base_path fs entity ident then Inr (False, fs)
      else bind_res (FileStorage_write base_path fs entity ident data) (\<lambda>fs. Inr (True, fs)))"

definition CRUDHandler_delete :: "boost \<Rightarrow> string \<Rightarrow> file_system \<Rightarrow> string \<Rightarrow> int \<Rightarrow> (bool \<times> file_system) res" where
  "CRUDHandler_delete B base_path fs entity ident =
     (if \<not> CRUDHandler_exists B base_path fs entity ident then Inr (False, fs)
      else bind_res (FileStorage_remove B base_path fs entity ident) (\<lambda>fs. Inr (True, fs)))"

definition CRUDHandler :: "boost \<Rightarrow> string \<Rightarrow> file_system ICRUDHandler" where
  "CRUDHandler B base_path = \<lparr>
     crud_create = CRUDHandler_create B base_path,
     crud_read = CRUDHandler_read base_path,
     crud_update = CRUDHandler_update B base_path,
     crud_delete = CRUDHandler_delete B base_path,
     crud_exists = CRUDHandler_exists B base_path\<rparr>"

section \<open>The contract\<close>

text \<open>
  The abstract state is a map from entity names and ids to data. \<open>is_next_id\<close> is the id
  \<^verbatim>\<open>create\<close> hands out: the smallest positive one not in use.
\<close>

definition is_next_id :: "((string \<times> int) \<rightharpoonup> string) \<Rightarrow> string \<Rightarrow> int \<Rightarrow> bool" where
  "is_next_id m n i \<longleftrightarrow> 1 \<le> i \<and> m (n, i) = None \<and> (\<forall>j. 1 \<le> j \<and> j < i \<longrightarrow> m (n, j) \<noteq> None)"

lemma is_next_id_unique: "is_next_id m n i \<Longrightarrow> is_next_id m n j \<Longrightarrow> i = j"
  by (force simp: is_next_id_def)

locale crud_store =
  fixes C :: "'s ICRUDHandler"
    and key :: "string \<Rightarrow> string option"
    and \<alpha> :: "'s \<Rightarrow> (string \<times> int) \<rightharpoonup> string"
    and inv :: "'s \<Rightarrow> bool"
  assumes exists_iff: "inv s \<Longrightarrow> key e = Some n \<Longrightarrow> crud_exists C s e i \<longleftrightarrow> \<alpha> s (n, i) \<noteq> None"
    and read_item: "inv s \<Longrightarrow> key e = Some n \<Longrightarrow> \<alpha> s (n, i) = Some d \<Longrightarrow> crud_read C s e i = d"
    and create_item:
      "inv s \<Longrightarrow> key e = Some n \<Longrightarrow> is_next_id (\<alpha> s) n i \<Longrightarrow> i \<le> INT_MAX \<Longrightarrow>
       \<exists>s'. crud_create C s e d = Inr (id_json i, s') \<and> inv s' \<and> \<alpha> s' = (\<alpha> s)((n, i) \<mapsto> d)"
    and update_item:
      "inv s \<Longrightarrow> key e = Some n \<Longrightarrow> \<alpha> s (n, i) \<noteq> None \<Longrightarrow>
       \<exists>s'. crud_update C s e i d = Inr (True, s') \<and> inv s' \<and> \<alpha> s' = (\<alpha> s)((n, i) \<mapsto> d)"
    and update_missing:
      "inv s \<Longrightarrow> key e = Some n \<Longrightarrow> \<alpha> s (n, i) = None \<Longrightarrow> crud_update C s e i d = Inr (False, s)"
    and delete_item:
      "inv s \<Longrightarrow> key e = Some n \<Longrightarrow> \<alpha> s (n, i) \<noteq> None \<Longrightarrow>
       \<exists>s'. crud_delete C s e i = Inr (True, s') \<and> inv s' \<and> \<alpha> s' = (\<alpha> s)((n, i) := None)"
    and delete_missing:
      "inv s \<Longrightarrow> key e = Some n \<Longrightarrow> \<alpha> s (n, i) = None \<Longrightarrow> crud_delete C s e i = Inr (False, s)"
    and finite_items: "inv s \<Longrightarrow> finite (dom (\<alpha> s))"
begin

text \<open>A next id exists, since only finitely many items are stored.\<close>

lemma ex_next_id:
  assumes "inv s"
  shows "\<exists>i. is_next_id (\<alpha> s) n i"
proof -
  let ?free = "\<lambda>k. \<alpha> s (n, int (Suc k)) = None"
  have "finite ((\<lambda>k. (n, int (Suc k))) -` dom (\<alpha> s))"
    using finite_items [OF assms] by (rule finite_vimageI) (auto simp: inj_on_def)
  then obtain k where "k \<notin> (\<lambda>k. (n, int (Suc k))) -` dom (\<alpha> s)"
    using infinite_UNIV_nat by (metis UNIV_eq_I)
  then have "?free k" by auto
  then have least: "?free (Least ?free)" "\<And>j. j < Least ?free \<Longrightarrow> \<not> ?free j"
    by (rule LeastI) (rule not_less_Least)
  have "\<alpha> s (n, j) \<noteq> None" if "1 \<le> j" "j < int (Suc (Least ?free))" for j
    using least(2) [of "nat (j - 1)"] that by simp
  then have "is_next_id (\<alpha> s) n (int (Suc (Least ?free)))"
    using least(1) by (simp add: is_next_id_def)
  then show ?thesis ..
qed

lemma next_id_le_card:
  assumes "inv s" and "is_next_id (\<alpha> s) n i"
  shows "i \<le> int (card (dom (\<alpha> s))) + 1"
proof -
  have "Pair n ` {1..<i} \<subseteq> dom (\<alpha> s)" using assms(2) by (auto simp: is_next_id_def)
  then have "card (Pair n ` {1..<i}) \<le> card (dom (\<alpha> s))"
    using finite_items [OF assms(1)] by (rule card_mono [rotated])
  moreover have "card (Pair n ` {1..<i}) = nat (i - 1)" by (subst card_image) (auto simp: inj_on_def)
  ultimately show ?thesis by simp
qed

text \<open>Creating an item and reading it back under any name of the entity.\<close>

lemma create_then_read:
  assumes "inv s" and "key e = Some n" and "key e' = Some n" and "int (card (dom (\<alpha> s))) < INT_MAX"
  shows "\<exists>i s'. is_next_id (\<alpha> s) n i \<and> crud_create C s e d = Inr (id_json i, s') \<and> inv s' \<and>
    \<alpha> s' = (\<alpha> s)((n, i) \<mapsto> d) \<and> crud_exists C s' e' i \<and> crud_read C s' e' i = d"
proof -
  obtain i where i: "is_next_id (\<alpha> s) n i" using ex_next_id [OF assms(1)] by blast
  then have "i \<le> INT_MAX" using next_id_le_card [OF assms(1) i] assms(4) by simp
  then obtain s' where s': "crud_create C s e d = Inr (id_json i, s')" "inv s'" "\<alpha> s' = (\<alpha> s)((n, i) \<mapsto> d)"
    using create_item [OF assms(1,2) i] by blast
  then have "crud_exists C s' e' i" "crud_read C s' e' i = d"
    using exists_iff [OF s'(2) assms(3)] read_item [OF s'(2) assms(3)] by simp_all
  with i s' show ?thesis by blast
qed

text \<open>A deleted item is gone, and its id is free again: the next item created may get it.\<close>

lemma delete_then_missing:
  assumes "inv s" and "key e = Some n" and "key e' = Some n" and "\<alpha> s (n, i) \<noteq> None"
  shows "\<exists>s'. crud_delete C s e i = Inr (True, s') \<and> inv s' \<and> \<alpha> s' = (\<alpha> s)((n, i) := None) \<and>
    \<not> crud_exists C s' e' i \<and> crud_update C s' e' i d = Inr (False, s')"
proof -
  obtain s' where s': "crud_delete C s e i = Inr (True, s')" "inv s'" "\<alpha> s' = (\<alpha> s)((n, i) := None)"
    using delete_item [OF assms(1,2,4)] by blast
  then have "\<not> crud_exists C s' e' i" "crud_update C s' e' i d = Inr (False, s')"
    using exists_iff [OF s'(2) assms(3)] update_missing [OF s'(2) assms(3)] by simp_all
  with s' show ?thesis by blast
qed

end

section \<open>The implementation fulfils the contract\<close>

lemma FileStorage_remove_store:
  assumes B: "boost_laws B" and inv: "store_inv b r fs" and key: "entity_key e = Some n"
    and item: "store_abs r fs (n, i) \<noteq> None"
  shows "\<exists>fs'. FileStorage_remove B (b @ ''/'') fs e i = Inr fs' \<and> store_inv b r fs' \<and>
               store_abs r fs' = (store_abs r fs)((n, i) := None)"
proof -
  note n = entity_key_plain [OF key]
  let ?k = "r @ [n, int_to_string i]"
  obtain c where c: "nodes fs ?k = Some (File True True c)"
    using store_inv_item [OF inv n, of i] item n by (auto simp: store_abs_def split: option.splits)
  have "nodes fs (r @ [n]) = Some Dir"
  proof -
    have "nodes fs ((r @ [n]) @ [int_to_string i]) \<noteq> None" using c by simp
    then show ?thesis using inv unfolding store_inv_def wf_fs_def by blast
  qed
  then have "FileStorage_remove B (b @ ''/'') fs e i = Inr (del_node ?k fs)"
    using resolve_getPath [OF inv key] boost_laws.remove_file [OF B _ c] by (simp add: FileStorage_remove_def)
  moreover have "wf_fs (del_node ?k fs)"
    using inv wf_fs_del_file [OF _ c] by (simp add: store_inv_def)
  moreover have "walk (del_node ?k fs) (path_start fs (b @ ''/'')) (split_path b) = Some r"
  proof (rule walk_mono)
    show "walk fs (path_start fs (b @ ''/'')) (split_path b) = Some r" using inv by (simp add: store_inv_def)
  qed (use c in auto)
  ultimately have "store_inv b r (del_node ?k fs)"
    using inv by (auto simp: store_inv_def)
  moreover have "store_abs r (del_node ?k fs) = (store_abs r fs)((n, i) := None)"
    by (simp add: fun_eq_iff store_abs_def)
  ultimately show ?thesis
    using \<open>FileStorage_remove B (b @ ''/'') fs e i = Inr (del_node ?k fs)\<close> by blast
qed

lemma exists_store:
  assumes "boost_laws B" and "store_inv b r fs" and "entity_key e = Some n"
  shows "bfs_exists B fs (getPath (b @ ''/'') e i) \<longleftrightarrow> store_abs r fs (n, i) \<noteq> None"
  using boost_laws.exists_stat [OF assms(1)] stat_getPath_abs [OF assms(2,3)] by simp

lemma getNextId_store:
  assumes "boost_laws B" and "store_inv b r fs" and "entity_key e = Some n"
    and "is_next_id (store_abs r fs) n i" and "i \<le> INT_MAX" and "1 \<le> j" and "j \<le> i"
  shows "getNextId_loop B (b @ ''/'') fs e j = Inr i"
  using assms(6,7)
proof (induction "nat (i - j)" arbitrary: j)
  case 0
  then have "j = i" by simp
  then show ?case
    using exists_store [OF assms(1-3)] assms(4) by (subst getNextId_loop.simps) (simp add: is_next_id_def)
next
  case (Suc m)
  then have "j < i" by simp
  then have "bfs_exists B fs (getPath (b @ ''/'') e j)"
    using exists_store [OF assms(1-3)] assms(4) Suc.prems by (simp add: is_next_id_def)
  moreover have "getNextId_loop B (b @ ''/'') fs e (j + 1) = Inr i"
    using Suc \<open>j < i\<close> by simp
  ultimately show ?case
    using \<open>j < i\<close> assms(5) by (subst getNextId_loop.simps) simp
qed

lemma finite_store:
  assumes "wf_fs fs"
  shows "finite (dom (store_abs r fs))"
proof -
  let ?loc = "\<lambda>(n, i). r @ [n, int_to_string i]"
  have "inj ?loc" by (auto simp: inj_on_def)
  then have "finite (?loc -` dom (nodes fs))"
    using assms by (intro finite_vimageI) (auto simp: wf_fs_def)
  moreover have "dom (store_abs r fs) \<subseteq> ?loc -` dom (nodes fs)"
    by (auto simp: store_abs_def split: if_splits option.splits)
  ultimately show ?thesis by (rule finite_subset [rotated])
qed

lemma crud_store_CRUDHandler:
  assumes B: "boost_laws B"
  shows "crud_store (CRUDHandler B (b @ ''/'')) entity_key (store_abs r) (store_inv b r)"
proof (unfold_locales, goal_cases)
  case (1 s e n i)
  then show ?case by (simp add: CRUDHandler_def CRUDHandler_exists_def exists_store [OF B])
next
  case (2 s e n i d)
  then show ?case
    using stat_getPath_abs [of b r s e n i]
    by (simp add: CRUDHandler_def CRUDHandler_read_def FileStorage_read_def ifstream_read_def)
next
  case (3 s e n i d)
  have "getNextId B (b @ ''/'') s e = Inr i"
    using getNextId_store [OF B 3, of 1] 3(3) by (simp add: getNextId_def is_next_id_def)
  then show ?case
    using FileStorage_write_store [OF 3(1,2), of i d] by (auto simp: CRUDHandler_def CRUDHandler_create_def)
next
  case (4 s e n i d)
  then show ?case
    using FileStorage_write_store [OF 4(1,2), of i d]
    by (auto simp: CRUDHandler_def CRUDHandler_update_def CRUDHandler_exists_def exists_store [OF B])
next
  case (5 s e n i d)
  then show ?case
    by (simp add: CRUDHandler_def CRUDHandler_update_def CRUDHandler_exists_def exists_store [OF B])
next
  case (6 s e n i)
  then show ?case
    using FileStorage_remove_store [OF B 6]
    by (auto simp: CRUDHandler_def CRUDHandler_delete_def CRUDHandler_exists_def exists_store [OF B])
next
  case (7 s e n i)
  then show ?case
    by (simp add: CRUDHandler_def CRUDHandler_delete_def CRUDHandler_exists_def exists_store [OF B])
next
  case (8 s)
  then show ?case by (intro finite_store) (simp add: store_inv_def)
qed

sublocale boost_laws \<subseteq> files: crud_store "CRUDHandler B (b @ ''/'')" entity_key "store_abs r" "store_inv b r" for b r
  by (rule crud_store_CRUDHandler) unfold_locales

interpretation ref_files: crud_store "CRUDHandler (ref_boost put) (b @ ''/'')" entity_key "store_abs r" "store_inv b r" for put b r
  by (rule crud_store_CRUDHandler) unfold_locales

section \<open>Properties of the handler\<close>

text \<open>A file system with an empty storage directory, for the witnesses.\<close>

definition sample_fs :: file_system where
  "sample_fs = \<lparr>nodes = [[] \<mapsto> Dir, [''srv''] \<mapsto> Dir], cwd = []\<rparr>"

lemma store_inv_sample: "store_inv ''/srv'' [''srv''] sample_fs"
  by (auto simp: store_inv_def wf_fs_def sample_fs_def path_start_def split: if_splits)

lemma store_abs_sample: "store_abs [''srv''] sample_fs = Map.empty"
  by (auto simp: store_abs_def sample_fs_def)

text \<open>
  Below the limit of the id type \<^verbatim>\<open>CRUDHandler::create\<close> succeeds: it picks the
  smallest free id of the entity, answers with that id, changes no other item, and
  \<^verbatim>\<open>read\<close> and \<^verbatim>\<open>exists\<close> under any spelling of the entity then find
  exactly the stored data.
\<close>

lemma CRUDHandler_create_then_read:
  assumes "boost_laws B" and "store_inv b r fs" and "entity_key e = Some n" and "entity_key e' = Some n"
    and "int (card (dom (store_abs r fs))) < INT_MAX"
  shows "\<exists>i fs'. is_next_id (store_abs r fs) n i \<and>
    CRUDHandler_create B (b @ ''/'') fs e d = Inr (id_json i, fs') \<and> store_inv b r fs' \<and>
    store_abs r fs' = (store_abs r fs)((n, i) \<mapsto> d) \<and>
    CRUDHandler_exists B (b @ ''/'') fs' e' i \<and> CRUDHandler_read (b @ ''/'') fs' e' i = d"
  using crud_store.create_then_read [OF crud_store_CRUDHandler [OF assms(1)] assms(2-5), of d]
  by (simp add: CRUDHandler_def)

text \<open>
  \<^verbatim>\<open>CRUDHandler::delete_\<close> on a stored item returns true and removes that item and
  nothing else; afterwards it does not exist and \<^verbatim>\<open>update\<close> refuses it.
\<close>

lemma CRUDHandler_delete_then_missing:
  assumes "boost_laws B" and "store_inv b r fs" and "entity_key e = Some n" and "entity_key e' = Some n"
    and "store_abs r fs (n, i) \<noteq> None"
  shows "\<exists>fs'. CRUDHandler_delete B (b @ ''/'') fs e i = Inr (True, fs') \<and> store_inv b r fs' \<and>
    store_abs r fs' = (store_abs r fs)((n, i) := None) \<and>
    \<not> CRUDHandler_exists B (b @ ''/'') fs' e' i \<and> CRUDHandler_update B (b @ ''/'') fs' e' i d = Inr (False, fs')"
  using crud_store.delete_then_missing [OF crud_store_CRUDHandler [OF assms(1)] assms(2-5), of d]
  by (simp add: CRUDHandler_def)

definition sample_fs_item :: file_system where
  "sample_fs_item = set_node [''srv'', ''shoes'', ''1''] (File True True ''old'') (set_node [''srv'', ''shoes''] Dir sample_fs)"

lemma int_to_string_1: "int_to_string 1 = ''1''"
  by code_simp

lemma store_inv_sample_item:
  "store_inv ''/srv'' [''srv''] sample_fs_item"
  "store_abs [''srv''] sample_fs_item = (store_abs [''srv''] sample_fs)((''shoes'', 1) \<mapsto> ''old'')"
proof -
  have n: "plain_name ''shoes''" by (simp add: plain_name_def)
  have c: "store_inv ''/srv'' [''srv''] (set_node ([''srv''] @ [''shoes'']) Dir sample_fs)"
    "store_abs [''srv''] (set_node ([''srv''] @ [''shoes'']) Dir sample_fs) = store_abs [''srv''] sample_fs"
    by (rule store_inv_make_collection [OF store_inv_sample n], simp add: sample_fs_def)+
  from store_inv_write_item [OF c(1) n, of 1 "''old''"] c(2)
  show "store_inv ''/srv'' [''srv''] sample_fs_item"
    "store_abs [''srv''] sample_fs_item = (store_abs [''srv''] sample_fs)((''shoes'', 1) \<mapsto> ''old'')"
    by (simp_all add: sample_fs_item_def int_to_string_1)
qed

section \<open>Any entity\<close>

text \<open>Every method keeps the directory tree, whatever entity and id it is called with.\<close>

lemma CRUDHandler_wf:
  assumes "boost_laws B" and "safe_cwd fs"
  shows "CRUDHandler_create B base fs e d = Inr (txt1, fs') \<Longrightarrow> safe_cwd fs'"
    and "CRUDHandler_update B base fs e i d = Inr (ok, fs') \<Longrightarrow> safe_cwd fs'"
    and "CRUDHandler_delete B base fs e i = Inr (ok, fs') \<Longrightarrow> safe_cwd fs'"
  using assms FileStorage_write_wf FileStorage_remove_wf
  by (auto simp: CRUDHandler_create_def CRUDHandler_update_def CRUDHandler_delete_def bind_res_eq_Inr_iff split: if_splits)

end
