(* ===== verification/Handler_API.thy ===== *)
theory Handler_API
  imports Crud_Handler
begin

text \<open>
  \<^verbatim>\<open>RequestHandlerAPI\<close> of
  \<^verbatim>\<open>src/request_handler/request_handler_api.cc\<close>, over any implementation of
  \<^verbatim>\<open>ICRUDHandler\<close>. A handler takes the request, the response object the caller
  passes by pointer and the state of the storage, and returns both updated; the exceptions and
  overflows it does not catch are faults, since it is \<^verbatim>\<open>noexcept\<close>.
\<close>

section \<open>The handler\<close>

definition removePrefix :: "string \<Rightarrow> string \<Rightarrow> string option" where
  "removePrefix pfx path =
     (if length path < length pfx then None
      else if take (length pfx) path \<noteq> pfx then None
      else Some (drop (length pfx) path))"

text \<open>
  \<^verbatim>\<open>s.substr(0, s.find_last_of('/'))\<close> and
  \<^verbatim>\<open>s.substr(s.find_last_of('/') + 1)\<close>: without a slash the position is
  \<^verbatim>\<open>npos\<close>, so both are the whole string.
\<close>

definition before_last_slash :: "string \<Rightarrow> string" where
  "before_last_slash s = (case find_last_of CHR ''/'' s of None \<Rightarrow> s | Some i \<Rightarrow> take i s)"

definition after_last_slash :: "string \<Rightarrow> string" where
  "after_last_slash s = (case find_last_of CHR ''/'' s of None \<Rightarrow> s | Some i \<Rightarrow> drop (Suc i) s)"

text \<open>The character at position 0 of an empty \<^verbatim>\<open>std::string\<close> is the terminating NUL.\<close>

definition first_char :: "string \<Rightarrow> char" where
  "first_char s = (case s of [] \<Rightarrow> CHR 0x00 | c # _ \<Rightarrow> c)"

text \<open>The loop of a list request; the exit by overflow is \<^verbatim>\<open>id++\<close> at the largest id.\<close>

function list_loop :: "'s ICRUDHandler \<Rightarrow> 's \<Rightarrow> string \<Rightarrow> int \<Rightarrow> string \<Rightarrow> string res" where
  "list_loop C s entity_id ident response_body =
     (if crud_exists C s entity_id ident then
        (let response_body = response_body @ (if ident > 1 then '', '' else []) @ int_to_string ident
         in if ident \<ge> INT_MAX then Inl Int_Overflow else list_loop C s entity_id (ident + 1) response_body)
      else Inr response_body)"
  by pat_completeness auto
termination
  by (relation "measure (\<lambda>(_, _, _, ident, _). nat (INT_MAX - ident))") auto

declare list_loop.simps [simp del]

text \<open>An early return: the status, the text and \<^verbatim>\<open>prepare_payload\<close>.\<close>

definition api_reject :: "boost \<Rightarrow> status \<Rightarrow> string \<Rightarrow> response \<Rightarrow> 's \<Rightarrow> (response \<times> 's) res" where
  "api_reject B st msg res s = Inr (prepare_payload B (res\<lparr>res_result := st, res_body := msg\<rparr>), s)"

definition api_post :: "boost \<Rightarrow> 's ICRUDHandler \<Rightarrow> request \<Rightarrow> response \<Rightarrow> 's \<Rightarrow> (response \<times> 's) res" where
  "api_post B C req res s =
     (let entity = after_last_slash (req_target req) in
      bind_res (crud_create C s entity (req_body req)) (\<lambda>(response_body, s).
      Inr (prepare_payload B (res\<lparr>res_result := status_ok, res_body := response_body\<rparr>), s)))"

definition api_get :: "boost \<Rightarrow> 's ICRUDHandler \<Rightarrow> string \<Rightarrow> request \<Rightarrow> response \<Rightarrow> 's \<Rightarrow> (response \<times> 's) res" where
  "api_get B C pfx req res s =
     (case removePrefix pfx (req_target req) of
        None \<Rightarrow> api_reject B status_not_found ''Invalid Request: get request'' res s
      | Some entity_id \<Rightarrow>
          (let entity = before_last_slash entity_id;
               id_str = after_last_slash entity_id
           in if \<not> isdigit (first_char id_str) then
                bind_res (list_loop C s entity_id 1 ''['') (\<lambda>response_body.
                Inr (prepare_payload B (res\<lparr>res_body := response_body @ '']'', res_result := status_ok\<rparr>), s))
              else
                (case lexical_cast_int B id_str of
                   None \<Rightarrow> api_reject B status_not_found ''Invalid Request: retrieve failed'' res s
                 | Some ident \<Rightarrow>
                     (if \<not> crud_exists C s entity ident
                      then api_reject B status_not_found ''Invalid Request: file not found'' res s
                      else Inr (prepare_payload B
                             (res\<lparr>res_body := crud_read C s entity ident, res_result := status_ok\<rparr>), s)))))"

definition api_put :: "boost \<Rightarrow> 's ICRUDHandler \<Rightarrow> string \<Rightarrow> request \<Rightarrow> response \<Rightarrow> 's \<Rightarrow> (response \<times> 's) res" where
  "api_put B C pfx req res s =
     (case removePrefix pfx (req_target req) of
        None \<Rightarrow> api_reject B status_not_found ''Invalid Request'' res s
      | Some entity_id \<Rightarrow>
          (let entity = before_last_slash entity_id;
               id_str = after_last_slash entity_id
           in case lexical_cast_int B id_str of
                None \<Rightarrow> api_reject B status_not_found ''Invalid Request'' res s
              | Some ident \<Rightarrow>
                  bind_res (crud_update C s entity ident (req_body req)) (\<lambda>(success, s).
                  if \<not> success then api_reject B status_not_found ''Invalid Request'' res s
                  else Inr (prepare_payload B (res\<lparr>res_result := status_ok\<rparr>), s))))"

definition api_delete :: "boost \<Rightarrow> 's ICRUDHandler \<Rightarrow> string \<Rightarrow> request \<Rightarrow> response \<Rightarrow> 's \<Rightarrow> (response \<times> 's) res" where
  "api_delete B C pfx req res s =
     (case removePrefix pfx (req_target req) of
        None \<Rightarrow> api_reject B status_not_found ''Invalid Request: entity does not exist'' res s
      | Some entity_id \<Rightarrow>
          (let entity = before_last_slash entity_id;
               id_str = after_last_slash entity_id
           in case lexical_cast_int B id_str of
                None \<Rightarrow> api_reject B status_bad_request ''Invalid Request: entity_id could not be parsed'' res s
              | Some ident \<Rightarrow>
                  bind_res (crud_delete C s entity ident) (\<lambda>(success, s).
                  if \<not> success
                  then api_reject B status_not_found ''Invalid Request: entity id does not exist'' res s
                  else Inr (prepare_payload B
                         (res\<lparr>res_result := status_ok, res_body := ''successfully deleted''\<rparr>), s))))"

definition unsupported_method :: string where
  "unsupported_method =
     ''{'' @ [CHR 0x22] @ ''error'' @ [CHR 0x22] @ '': '' @ [CHR 0x22] @ ''Unsupported HTTP method'' @ [CHR 0x22] @ ''}''"

definition RequestHandlerAPI_getName :: string where
  "RequestHandlerAPI_getName = ''APIHandler''"

definition RequestHandlerAPI_handleRequest ::
  "boost \<Rightarrow> 's ICRUDHandler \<Rightarrow> string \<Rightarrow> request \<Rightarrow> response \<Rightarrow> 's \<Rightarrow> (response \<times> 's) res" where
  "RequestHandlerAPI_handleRequest B C pfx req res s =
     (let res = res_set B field_content_type ''application/json'' (res\<lparr>res_version := req_version req\<rparr>) in
      case req_method req of
        verb_post \<Rightarrow> api_post B C req res s
      | verb_get \<Rightarrow> api_get B C pfx req res s
      | verb_put \<Rightarrow> api_put B C pfx req res s
      | verb_delete \<Rightarrow> api_delete B C pfx req res s
      | verb_other \<Rightarrow>
          Inr (prepare_payload B (res\<lparr>res_result := status_bad_request, res_body := unsupported_method\<rparr>), s))"

lemmas api_defs =
  RequestHandlerAPI_handleRequest_def api_post_def api_get_def api_put_def api_delete_def api_reject_def

section \<open>Targets\<close>

text \<open>
  Targets under a prefix: the registered prefix is \<open>q\<close>, or \<open>q\<close> with the final slash
  when it is the root.
\<close>

lemma after_last_slash_append [simp]: "CHR ''/'' \<notin> set v \<Longrightarrow> after_last_slash (u @ CHR ''/'' # v) = v"
  by (simp add: after_last_slash_def find_last_of_append_notin)

lemma before_last_slash_append [simp]: "CHR ''/'' \<notin> set v \<Longrightarrow> before_last_slash (u @ CHR ''/'' # v) = u"
  by (simp add: before_last_slash_def find_last_of_append_notin)

lemma after_last_slash_Cons [simp]: "CHR ''/'' \<notin> set v \<Longrightarrow> after_last_slash (CHR ''/'' # v) = v"
  using after_last_slash_append [of v "[]"] by simp

lemma after_last_slash_plain [simp]: "CHR ''/'' \<notin> set v \<Longrightarrow> after_last_slash v = v"
proof -
  assume "CHR ''/'' \<notin> set v"
  then have "find_last_of CHR ''/'' v = None" by simp
  then show ?thesis by (simp add: after_last_slash_def del: find_last_of_None_iff)
qed

lemma removePrefix_append [simp]: "removePrefix p (p @ t) = Some t"
  by (simp add: removePrefix_def)

lemma removePrefix_below:
  assumes "pfx \<in> {q, q @ ''/''}"
  shows "\<exists>pre. set pre \<subseteq> {CHR ''/''} \<and> length pre \<le> 1 \<and> removePrefix pfx (q @ CHR ''/'' # t) = Some (pre @ t)"
proof (cases "pfx = q")
  case True
  then show ?thesis by (intro exI [of _ "''/''"]) simp
next
  case False
  then have "pfx = q @ ''/''" using assms by simp
  moreover have "removePrefix (q @ ''/'') (q @ CHR ''/'' # t) = Some t"
    using removePrefix_append [of "q @ ''/''" t] by simp
  ultimately show ?thesis by (intro exI [of _ "[]"]) simp
qed

text \<open>The printed list of a list request.\<close>

fun id_list :: "nat \<Rightarrow> string" where
  "id_list 0 = []"
| "id_list (Suc 0) = ''1''"
| "id_list (Suc (Suc n)) = id_list (Suc n) @ '', '' @ int_to_string (int n + 2)"

lemma id_list_Suc: "id_list (Suc n) = id_list n @ (if n > 0 then '', '' else []) @ int_to_string (int n + 1)"
  by (cases n) (simp_all add: int_to_string_1 add.commute)

section \<open>What a client sees\<close>

text \<open>
  The handler as a client of the storage contract: the store may be any \<open>crud_store\<close> whose
  entities can be written with and without a leading slash.
\<close>

locale api_client = boost_laws B + crud_store C key \<alpha> inv
  for B :: boost and C :: "'s ICRUDHandler" and key :: "string \<Rightarrow> string option"
    and \<alpha> :: "'s \<Rightarrow> (string \<times> int) \<rightharpoonup> string" and inv :: "'s \<Rightarrow> bool" +
  assumes key_name: "plain_name n \<Longrightarrow> key n = Some n"
    and key_slash: "plain_name n \<Longrightarrow> key (CHR ''/'' # n) = Some n"
begin

lemma key_prefixed:
  assumes "set pre \<subseteq> {CHR ''/''}" and "length pre \<le> 1" and "plain_name n"
  shows "key (pre @ n) = Some n"
  using assms key_name key_slash by (cases pre) auto

lemma item_target:
  assumes "pfx \<in> {q, q @ ''/''}" and "plain_name n"
  shows "\<exists>e u. removePrefix pfx (q @ ''/'' @ n @ ''/'' @ int_to_string i) = Some u \<and> key e = Some n \<and>
    before_last_slash u = e \<and> after_last_slash u = int_to_string i"
proof -
  obtain pre where pre: "set pre \<subseteq> {CHR ''/''}" "length pre \<le> 1"
      "removePrefix pfx (q @ CHR ''/'' # n @ ''/'' @ int_to_string i) = Some (pre @ n @ ''/'' @ int_to_string i)"
    using removePrefix_below [OF assms(1)] by blast
  then have "before_last_slash (pre @ n @ ''/'' @ int_to_string i) = pre @ n"
    "after_last_slash (pre @ n @ ''/'' @ int_to_string i) = int_to_string i"
    using before_last_slash_append [of "int_to_string i" "pre @ n"] after_last_slash_append [of "int_to_string i" "pre @ n"]
    by simp_all
  then show ?thesis using pre key_prefixed [OF pre(1,2) assms(2)] by auto
qed

lemma first_char_id: "0 \<le> i \<Longrightarrow> isdigit (first_char (int_to_string i))"
  using hd_int_to_string_digit [of i] int_to_string_nonempty [of i]
  by (auto simp: first_char_def split: list.splits)

text \<open>A GET of one item is a lookup in the abstract store.\<close>

lemma get_item:
  assumes "inv s" and "pfx \<in> {q, q @ ''/''}" and "plain_name n" and "0 \<le> i" and "i \<le> INT_MAX"
    and "req_method req = verb_get" and "req_target req = q @ ''/'' @ n @ ''/'' @ int_to_string i"
  shows "\<exists>res'. RequestHandlerAPI_handleRequest B C pfx req res s = Inr (res', s) \<and>
    (case \<alpha> s (n, i) of
       Some d \<Rightarrow> res_result res' = status_ok \<and> res_body res' = d
     | None \<Rightarrow> res_result res' = status_not_found \<and> res_body res' = ''Invalid Request: file not found'')"
proof -
  obtain e u where eu: "removePrefix pfx (req_target req) = Some u" "key e = Some n"
      "before_last_slash u = e" "after_last_slash u = int_to_string i"
    using item_target [OF assms(2,3), of i] assms(7) by metis
  have "lexical_cast_int B (int_to_string i) = Some i"
    using assms(4,5) by (intro lexical_cast_printed) (simp add: INT_MIN_def)
  then show ?thesis
    using assms(6) eu first_char_id [OF assms(4)] exists_iff [OF assms(1) eu(2)] read_item [OF assms(1) eu(2)]
    by (auto simp: api_defs Let_def split: option.splits)
qed

text \<open>POST stores the body under the next id and answers with that id.\<close>

lemma post_item:
  assumes "inv s" and "plain_name n" and "int (card (dom (\<alpha> s))) < INT_MAX"
    and "req_method req = verb_post" and "req_target req = q @ ''/'' @ n"
  shows "\<exists>i res' s'. RequestHandlerAPI_handleRequest B C pfx req res s = Inr (res', s') \<and>
    is_next_id (\<alpha> s) n i \<and> i \<le> INT_MAX \<and> inv s' \<and> \<alpha> s' = (\<alpha> s)((n, i) \<mapsto> req_body req) \<and>
    res_result res' = status_ok \<and> res_body res' = id_json i"
proof -
  have "after_last_slash (req_target req) = n"
    using assms(2,5) by (simp add: plain_name_def)
  moreover obtain i s' where "is_next_id (\<alpha> s) n i" "crud_create C s n (req_body req) = Inr (id_json i, s')"
      "inv s'" "\<alpha> s' = (\<alpha> s)((n, i) \<mapsto> req_body req)"
    using create_then_read [OF assms(1) key_name key_name assms(3)] assms(2) by blast
  moreover from this(1) have "i \<le> INT_MAX" using next_id_le_card [OF assms(1)] assms(3) by force
  ultimately show ?thesis using assms(4) by (auto simp: api_defs Let_def)
qed

text \<open>PUT replaces a stored item and refuses a missing one.\<close>

lemma put_item:
  assumes "inv s" and "pfx \<in> {q, q @ ''/''}" and "plain_name n" and "INT_MIN \<le> i" and "i \<le> INT_MAX"
    and "req_method req = verb_put" and "req_target req = q @ ''/'' @ n @ ''/'' @ int_to_string i"
  shows "\<exists>res' s'. RequestHandlerAPI_handleRequest B C pfx req res s = Inr (res', s') \<and> inv s' \<and>
    (if \<alpha> s (n, i) = None
     then res_result res' = status_not_found \<and> res_body res' = ''Invalid Request'' \<and> s' = s
     else res_result res' = status_ok \<and> res_body res' = res_body res \<and> \<alpha> s' = (\<alpha> s)((n, i) \<mapsto> req_body req))"
proof -
  obtain e u where eu: "removePrefix pfx (req_target req) = Some u" "key e = Some n"
      "before_last_slash u = e" "after_last_slash u = int_to_string i"
    using item_target [OF assms(2,3), of i] assms(7) by metis
  have lc: "lexical_cast_int B (int_to_string i) = Some i" using assms(4,5) by (rule lexical_cast_printed)
  show ?thesis
  proof (cases "\<alpha> s (n, i) = None")
    case True
    then show ?thesis
      using assms(1,6) eu lc update_missing [OF assms(1) eu(2) True] by (auto simp: api_defs Let_def)
  next
    case False
    then show ?thesis
      using assms(6) eu lc update_item [OF assms(1) eu(2) False, of "req_body req"] by (auto simp: api_defs Let_def)
  qed
qed

text \<open>DELETE removes a stored item and refuses a missing one.\<close>

lemma delete_item_request:
  assumes "inv s" and "pfx \<in> {q, q @ ''/''}" and "plain_name n" and "INT_MIN \<le> i" and "i \<le> INT_MAX"
    and "req_method req = verb_delete" and "req_target req = q @ ''/'' @ n @ ''/'' @ int_to_string i"
  shows "\<exists>res' s'. RequestHandlerAPI_handleRequest B C pfx req res s = Inr (res', s') \<and> inv s' \<and>
    (if \<alpha> s (n, i) = None
     then res_result res' = status_not_found \<and> s' = s
     else res_result res' = status_ok \<and> res_body res' = ''successfully deleted'' \<and> \<alpha> s' = (\<alpha> s)((n, i) := None))"
proof -
  obtain e u where eu: "removePrefix pfx (req_target req) = Some u" "key e = Some n"
      "before_last_slash u = e" "after_last_slash u = int_to_string i"
    using item_target [OF assms(2,3), of i] assms(7) by metis
  have lc: "lexical_cast_int B (int_to_string i) = Some i" using assms(4,5) by (rule lexical_cast_printed)
  show ?thesis
  proof (cases "\<alpha> s (n, i) = None")
    case True
    then show ?thesis
      using assms(1,6) eu lc delete_missing [OF assms(1) eu(2) True] by (auto simp: api_defs Let_def)
  next
    case False
    then show ?thesis
      using assms(6) eu lc delete_item [OF assms(1) eu(2) False] by (auto simp: api_defs Let_def)
  qed
qed

text \<open>A list request prints the ids below the first free one.\<close>

lemma list_loop_next:
  assumes "inv s" and "key e = Some n" and "is_next_id (\<alpha> s) n i" and "i \<le> INT_MAX" and "int k < i"
  shows "list_loop C s e (int k + 1) (CHR ''['' # id_list k) = Inr (CHR ''['' # id_list (nat (i - 1)))"
  using assms(5)
proof (induction "nat (i - 1) - k" arbitrary: k)
  case 0
  then have k: "int k + 1 = i" "nat (i - 1) = k" by auto
  then show ?case
    using exists_iff [OF assms(1,2)] assms(3) by (subst list_loop.simps) (simp add: is_next_id_def)
next
  case (Suc m)
  then have less: "int k + 1 < i" by simp
  then have "crud_exists C s e (int k + 1)"
    using exists_iff [OF assms(1,2)] assms(3) by (simp add: is_next_id_def)
  moreover have "list_loop C s e (int (Suc k) + 1) (CHR ''['' # id_list (Suc k)) = Inr (CHR ''['' # id_list (nat (i - 1)))"
    using Suc.hyps(2) less by (intro Suc.hyps(1)) auto
  ultimately show ?case
    using less assms(4) by (subst list_loop.simps) (auto simp: Let_def id_list_Suc add.commute add.left_commute)
qed

lemma list_items:
  assumes "inv s" and "pfx \<in> {q, q @ ''/''}" and "plain_name n" and "\<not> isdigit (hd n)"
    and "is_next_id (\<alpha> s) n i" and "i \<le> INT_MAX"
    and "req_method req = verb_get" and "req_target req = q @ ''/'' @ n"
  shows "\<exists>res'. RequestHandlerAPI_handleRequest B C pfx req res s = Inr (res', s) \<and> res_result res' = status_ok \<and>
    res_body res' = ''['' @ id_list (nat (i - 1)) @ '']''"
proof -
  obtain pre where pre: "set pre \<subseteq> {CHR ''/''}" "length pre \<le> 1" "removePrefix pfx (req_target req) = Some (pre @ n)"
    using removePrefix_below [OF assms(2)] assms(8) by fastforce
  have "after_last_slash (pre @ n) = n"
    using pre(1,2) assms(3) by (cases pre) (auto simp: plain_name_def)
  moreover have "\<not> isdigit (first_char n)"
    using assms(3,4) by (auto simp: first_char_def plain_name_def split: list.splits)
  moreover have "list_loop C s (pre @ n) 1 ''['' = Inr (CHR ''['' # id_list (nat (i - 1)))"
    using list_loop_next [OF assms(1) key_prefixed [OF pre(1,2) assms(3)] assms(5,6), of 0] assms(5)
    by (simp add: is_next_id_def)
  ultimately show ?thesis using assms(7) pre(3) by (simp add: api_defs Let_def)
qed

end

section \<open>The handler over the file storage\<close>

lemma api_client_CRUDHandler:
  assumes "boost_laws B"
  shows "api_client B (CRUDHandler B (b @ ''/'')) entity_key (store_abs r) (store_inv b r)"
proof (rule api_client.intro [OF assms crud_store_CRUDHandler [OF assms]], unfold_locales)
  show "plain_name n \<Longrightarrow> entity_key n = Some n" for n
    by (simp add: entity_key_def)
  show "plain_name n \<Longrightarrow> entity_key (CHR ''/'' # n) = Some n" for n
    by (simp add: entity_key_def plain_name_def)
qed

sublocale boost_laws \<subseteq> api: api_client B "CRUDHandler B (b @ ''/'')" entity_key "store_abs r" "store_inv b r" for b r
  by (rule api_client_CRUDHandler) unfold_locales

interpretation ref_api: api_client "ref_boost put" "CRUDHandler (ref_boost put) (b @ ''/'')" entity_key "store_abs r" "store_inv b r" for put b r
  by (rule api_client_CRUDHandler) unfold_locales

abbreviation api_handler :: "boost \<Rightarrow> string \<Rightarrow> string \<Rightarrow> request \<Rightarrow> response \<Rightarrow> file_system \<Rightarrow> (response \<times> file_system) res" where
  "api_handler B root pfx \<equiv> RequestHandlerAPI_handleRequest B (CRUDHandler B root) pfx"

text \<open>Requests for the witnesses.\<close>

definition sample_request :: "verb \<Rightarrow> string \<Rightarrow> string \<Rightarrow> request" where
  "sample_request m t d = \<lparr>req_method = m, req_method_string = [], req_target = t, req_version = 11,
     req_fields = [], req_body = d\<rparr>"

lemma sample_request_simps [simp]:
  "req_method (sample_request m t d) = m" "req_target (sample_request m t d) = t"
  "req_body (sample_request m t d) = d" "req_version (sample_request m t d) = 11"
  "req_fields (sample_request m t d) = []"
  by (simp_all add: sample_request_def)

lemma plain_shoes: "plain_name ''shoes''"
  by (simp add: plain_name_def)

text \<open>
  A POST to a collection followed by a GET of the id it answered with returns the posted
  body: below the limit of the id type the POST succeeds with status 200, takes the smallest free
  id, stores the body and changes no other item, and the GET answers 200 with that body and
  changes nothing. The handler runs on \<^verbatim>\<open>CRUDHandler\<close> with a root that ends in a
  slash, under any registered prefix.
\<close>

lemma API_post_then_get:
  assumes "boost_laws B" and "store_inv b r fs" and "plain_name n" and "int (card (dom (store_abs r fs))) < INT_MAX"
    and "req_method req = verb_post" and "req_target req = q @ ''/'' @ n" and "pfx \<in> {q, q @ ''/''}"
  shows "\<exists>i res' fs'. api_handler B (b @ ''/'') pfx req res fs = Inr (res', fs') \<and>
    is_next_id (store_abs r fs) n i \<and> res_result res' = status_ok \<and> res_body res' = id_json i \<and>
    store_inv b r fs' \<and> store_abs r fs' = (store_abs r fs)((n, i) \<mapsto> req_body req) \<and>
    (\<forall>req2 res2. req_method req2 = verb_get \<and> req_target req2 = q @ ''/'' @ n @ ''/'' @ int_to_string i \<longrightarrow>
       (\<exists>res2'. api_handler B (b @ ''/'') pfx req2 res2 fs' = Inr (res2', fs') \<and>
          res_result res2' = status_ok \<and> res_body res2' = req_body req))"
proof -
  note c = api_client_CRUDHandler [OF assms(1), of b r]
  obtain i res' fs' where i: "api_handler B (b @ ''/'') pfx req res fs = Inr (res', fs')"
      "is_next_id (store_abs r fs) n i" "i \<le> INT_MAX" "store_inv b r fs'"
      "store_abs r fs' = (store_abs r fs)((n, i) \<mapsto> req_body req)"
      "res_result res' = status_ok" "res_body res' = id_json i"
    using api_client.post_item [OF c assms(2-6)] by blast
  have "0 \<le> i" using i(2) by (simp add: is_next_id_def)
  then have "\<exists>res2'. api_handler B (b @ ''/'') pfx req2 res2 fs' = Inr (res2', fs') \<and>
      res_result res2' = status_ok \<and> res_body res2' = req_body req"
    if "req_method req2 = verb_get" "req_target req2 = q @ ''/'' @ n @ ''/'' @ int_to_string i" for req2 res2
    using api_client.get_item [OF c i(4) assms(7,3) _ i(3) that] i(5) by simp
  with i show ?thesis by blast
qed

text \<open>
  A PUT to an item followed by a GET of it: when the item is stored, the PUT answers 200,
  stores the new body and changes no other item, and the GET returns the new body; when it is
  not, the PUT answers 404 and changes nothing.
\<close>

lemma API_put_then_get:
  assumes "boost_laws B" and "store_inv b r fs" and "plain_name n" and "pfx \<in> {q, q @ ''/''}"
    and "0 \<le> i" and "i \<le> INT_MAX"
    and "req_method req = verb_put" and "req_target req = q @ ''/'' @ n @ ''/'' @ int_to_string i"
    and "req_method req2 = verb_get" and "req_target req2 = req_target req"
  shows "\<exists>res' fs' res2'. api_handler B (b @ ''/'') pfx req res fs = Inr (res', fs') \<and>
    api_handler B (b @ ''/'') pfx req2 res2 fs' = Inr (res2', fs') \<and> store_inv b r fs' \<and>
    (if store_abs r fs (n, i) = None
     then res_result res' = status_not_found \<and> fs' = fs \<and> res_result res2' = status_not_found
     else res_result res' = status_ok \<and> store_abs r fs' = (store_abs r fs)((n, i) \<mapsto> req_body req) \<and>
       res_result res2' = status_ok \<and> res_body res2' = req_body req)"
proof -
  note c = api_client_CRUDHandler [OF assms(1), of b r]
  have "INT_MIN \<le> i" using assms(5) by (simp add: INT_MIN_def)
  then obtain res' fs' where p: "api_handler B (b @ ''/'') pfx req res fs = Inr (res', fs')" "store_inv b r fs'"
      "if store_abs r fs (n, i) = None
       then res_result res' = status_not_found \<and> res_body res' = ''Invalid Request'' \<and> fs' = fs
       else res_result res' = status_ok \<and> res_body res' = res_body res \<and>
         store_abs r fs' = (store_abs r fs)((n, i) \<mapsto> req_body req)"
    using api_client.put_item [OF c assms(2,4,3) _ assms(6-8), of res] by blast
  obtain res2' where "api_handler B (b @ ''/'') pfx req2 res2 fs' = Inr (res2', fs')"
      "case store_abs r fs' (n, i) of
         Some d \<Rightarrow> res_result res2' = status_ok \<and> res_body res2' = d
       | None \<Rightarrow> res_result res2' = status_not_found \<and> res_body res2' = ''Invalid Request: file not found''"
    using api_client.get_item [OF c p(2) assms(4,3,5,6,9), of res2] assms(8,10) by auto
  with p show ?thesis by (auto split: if_splits)
qed

text \<open>
  A DELETE of a stored item answers 200 and removes exactly that item; a GET of it then
  answers 404. Deleting an item that is not stored answers 404 and changes nothing.
\<close>

lemma API_delete_then_get:
  assumes "boost_laws B" and "store_inv b r fs" and "plain_name n" and "pfx \<in> {q, q @ ''/''}"
    and "0 \<le> i" and "i \<le> INT_MAX"
    and "req_method req = verb_delete" and "req_target req = q @ ''/'' @ n @ ''/'' @ int_to_string i"
    and "req_method req2 = verb_get" and "req_target req2 = req_target req"
  shows "\<exists>res' fs' res2'. api_handler B (b @ ''/'') pfx req res fs = Inr (res', fs') \<and>
    api_handler B (b @ ''/'') pfx req2 res2 fs' = Inr (res2', fs') \<and> store_inv b r fs' \<and>
    (if store_abs r fs (n, i) = None then res_result res' = status_not_found \<and> fs' = fs
     else res_result res' = status_ok \<and> res_body res' = ''successfully deleted'' \<and>
       store_abs r fs' = (store_abs r fs)((n, i) := None)) \<and>
    res_result res2' = status_not_found"
proof -
  note c = api_client_CRUDHandler [OF assms(1), of b r]
  have "INT_MIN \<le> i" using assms(5) by (simp add: INT_MIN_def)
  then obtain res' fs' where p: "api_handler B (b @ ''/'') pfx req res fs = Inr (res', fs')" "store_inv b r fs'"
      "if store_abs r fs (n, i) = None then res_result res' = status_not_found \<and> fs' = fs
       else res_result res' = status_ok \<and> res_body res' = ''successfully deleted'' \<and>
         store_abs r fs' = (store_abs r fs)((n, i) := None)"
    using api_client.delete_item_request [OF c assms(2,4,3) _ assms(6-8), of res] by blast
  obtain res2' where "api_handler B (b @ ''/'') pfx req2 res2 fs' = Inr (res2', fs')"
      "case store_abs r fs' (n, i) of
         Some d \<Rightarrow> res_result res2' = status_ok \<and> res_body res2' = d
       | None \<Rightarrow> res_result res2' = status_not_found \<and> res_body res2' = ''Invalid Request: file not found''"
    using api_client.get_item [OF c p(2) assms(4,3,5,6,9), of res2] assms(8,10) by auto
  with p show ?thesis by (auto split: if_splits)
qed

text \<open>
  C40. A GET of a collection lists the ids 1, 2, ... up to the first gap and nothing beyond it:
  the body is \<^verbatim>\<open>[1, 2, ..., k]\<close> where \<open>k + 1\<close> is the smallest free id, so an
  item stored after a deleted one is not listed, although a GET of it still answers 200.
\<close>

theorem API_list_stops_at_gap:
  assumes "boost_laws B" and "store_inv b r fs" and "plain_name n" and "\<not> isdigit (hd n)" and "pfx \<in> {q, q @ ''/''}"
    and "is_next_id (store_abs r fs) n i" and "i < j" and "j \<le> INT_MAX" and "store_abs r fs (n, j) = Some d"
    and "req_method req = verb_get" and "req_target req = q @ ''/'' @ n"
    and "req_method req2 = verb_get" and "req_target req2 = q @ ''/'' @ n @ ''/'' @ int_to_string j"
  shows "\<exists>res' res2'. api_handler B (b @ ''/'') pfx req res fs = Inr (res', fs) \<and> res_result res' = status_ok \<and>
    res_body res' = ''['' @ id_list (nat (i - 1)) @ '']'' \<and>
    api_handler B (b @ ''/'') pfx req2 res2 fs = Inr (res2', fs) \<and> res_result res2' = status_ok \<and> res_body res2' = d"
proof -
  note c = api_client_CRUDHandler [OF assms(1), of b r]
  have i: "i \<le> INT_MAX" "0 \<le> j" using assms(6-8) by (simp_all add: is_next_id_def)
  show ?thesis
    using api_client.list_items [OF c assms(2,5,3,4,6) i(1) assms(10,11), of res]
      api_client.get_item [OF c assms(2,5,3) i(2) assms(8,12,13), of res2] assms(9)
    by auto
qed

definition sample_fs_gap :: file_system where
  "sample_fs_gap = set_node [''srv'', ''shoes'', int_to_string 2] (File True True ''second'') (set_node [''srv'', ''shoes''] Dir sample_fs)"

lemma store_inv_sample_gap:
  "store_inv ''/srv'' [''srv''] sample_fs_gap"
  "store_abs [''srv''] sample_fs_gap = (store_abs [''srv''] sample_fs)((''shoes'', 2) \<mapsto> ''second'')"
proof -
  have c: "store_inv ''/srv'' [''srv''] (set_node ([''srv''] @ [''shoes'']) Dir sample_fs)"
    "store_abs [''srv''] (set_node ([''srv''] @ [''shoes'']) Dir sample_fs) = store_abs [''srv''] sample_fs"
    by (rule store_inv_make_collection [OF store_inv_sample plain_shoes], simp add: sample_fs_def)+
  from store_inv_write_item [OF c(1) plain_shoes, of 2 "''second''"] c(2)
  show "store_inv ''/srv'' [''srv''] sample_fs_gap"
    "store_abs [''srv''] sample_fs_gap = (store_abs [''srv''] sample_fs)((''shoes'', 2) \<mapsto> ''second'')"
    by (simp_all add: sample_fs_gap_def)
qed

theorem API_list_stops_at_gap_witness:
  "\<exists>res' res2'. api_handler (ref_boost (\<lambda>_. Put_more)) (''/srv'' @ ''/'') ''/api''
      (sample_request verb_get (''/api'' @ ''/'' @ ''shoes'') []) (make_response status_ok 11) sample_fs_gap = Inr (res', sample_fs_gap) \<and>
    res_body res' = ''[]'' \<and>
    api_handler (ref_boost (\<lambda>_. Put_more)) (''/srv'' @ ''/'') ''/api''
      (sample_request verb_get (''/api'' @ ''/'' @ ''shoes'' @ ''/'' @ int_to_string 2) []) (make_response status_ok 11)
      sample_fs_gap = Inr (res2', sample_fs_gap) \<and>
    res_body res2' = ''second''"
  using API_list_stops_at_gap [OF ref.boost_laws_axioms store_inv_sample_gap(1) plain_shoes, of "''/api''" "''/api''" 1 2 "''second''"
      "sample_request verb_get (''/api'' @ ''/'' @ ''shoes'') []"
      "sample_request verb_get (''/api'' @ ''/'' @ ''shoes'' @ ''/'' @ int_to_string 2) []"
      "\<lambda>_. Put_more" "make_response status_ok 11" "make_response status_ok 11"]
  by (auto simp: store_inv_sample_gap(2) store_abs_sample is_next_id_def INT_MAX_def isdigit_def)

text \<open>
  Whatever the storage does, a response the API handler returns has the version of the
  request, the content type JSON, a Content-Length equal to the length of its body, and status
  200, 400 or 404; a GET and an unsupported method leave the storage as it was, and an
  unsupported method always gets a 400.
\<close>

lemma API_response_shape:
  assumes "boost_laws B" and "RequestHandlerAPI_handleRequest B C pfx req res s = Inr (res', s')"
  shows "res_version res' = req_version req \<and> res_find B field_content_type res' = Some ''application/json'' \<and>
    res_find B field_content_length res' = Some (nat_to_string (length (res_body res'))) \<and>
    res_result res' \<in> {status_ok, status_bad_request, status_not_found} \<and>
    (req_method req = verb_get \<longrightarrow> s' = s) \<and> (req_method req = verb_other \<longrightarrow> s' = s \<and> res_result res' = status_bad_request)"
proof -
  note [simp] = boost_laws.res_find_set [OF assms(1)] boost_laws.res_find_prepare_length [OF assms(1)]
    boost_laws.res_find_prepare [OF assms(1)]
  show ?thesis
    using assms(2)
    by (cases "req_method req")
       (auto simp: api_defs Let_def bind_res_eq_Inr_iff split: option.splits if_splits)
qed

section \<open>Requests that end the process\<close>

text \<open>
  An item written to the storage directory itself blocks the collection of the same name:
  \<^verbatim>\<open>create_directories\<close> throws out of the \<^verbatim>\<open>noexcept\<close> handler.
\<close>

lemma create_blocked:
  assumes B: "boost_laws B" and fs: "wf_fs fs" "walk fs (path_start fs (b @ ''/'')) (split_path b) = Some r" "nodes fs r = Some Dir"
    and n: "plain_name n" and blocked: "nodes fs (r @ [n]) = Some (File rd wr c)"
  shows "CRUDHandler_create B (b @ ''/'') fs n d = Inl Exception_Thrown"
proof -
  have key: "entity_key n = Some n" using n by (simp add: entity_key_def)
  have path: "getPath (b @ ''/'') n 1 = b @ CHR ''/'' # n @ CHR ''/'' # int_to_string 1" by (simp add: getPath_def)
  have start: "path_start fs (b @ CHR ''/'' # u) = path_start fs (b @ ''/'')" for u by (rule path_start_append)
  have sp: "split_path (b @ CHR ''/'' # n @ CHR ''/'' # int_to_string 1) = split_path b @ [n, int_to_string 1]"
    "split_path (b @ CHR ''/'' # n) = split_path b @ [n]"
    using n by (simp_all add: split_path_append_slash split_path_name plain_name_def)
  have "walk fs r [n, int_to_string 1] = None"
    using fs(3) n blocked by (auto simp: plain_name_def)
  then have "stat fs (getPath (b @ ''/'') n 1) = None"
    using fs(2) by (simp add: stat_def resolve_def path start [of "n @ CHR ''/'' # int_to_string 1"] sp walk_append del: walk.simps(2))
  then have id: "getNextId B (b @ ''/'') fs n = Inr 1"
    using boost_laws.exists_stat [OF B] by (simp add: getNextId_def getNextId_loop.simps [of _ _ _ _ 1])
  have "create_directories fs (b @ ''/'' @ n) = make_directories fs r [n]"
    using make_directories_existing [OF fs(2,3,1), of "[n]"] start [of n] sp(2)
    by (simp add: create_directories_def del: make_directories.simps)
  then have "create_directories fs (parent_path (getPath (b @ ''/'') n 1)) = Inl Exception_Thrown"
    using parent_path_getPath [OF key, of b 1] blocked n by (simp add: plain_name_def)
  then show ?thesis
    by (simp add: CRUDHandler_create_def id FileStorage_write_def Let_def)
qed

text \<open>
  A file with a plain name directly under the storage root makes every POST to the
  collection of that name throw out of the \<^verbatim>\<open>noexcept\<close> handler, which ends the
  process.
\<close>

lemma API_post_blocked_collection:
  assumes "boost_laws B" and "wf_fs fs" and "walk fs (path_start fs (b @ ''/'')) (split_path b) = Some r" and "nodes fs r = Some Dir"
    and "plain_name n" and "nodes fs (r @ [n]) = Some (File rd wr c)"
    and "req_method req = verb_post" and "req_target req = q @ ''/'' @ n"
  shows "api_handler B (b @ ''/'') pfx req res fs = Inl Exception_Thrown"
proof -
  have "after_last_slash (req_target req) = n" using assms(5,8) by (simp add: plain_name_def)
  then show ?thesis
    using assms(7) create_blocked [OF assms(1-6)] by (simp add: api_defs Let_def CRUDHandler_def)
qed

text \<open>
  A client reaches such a state with one request: a POST to the bare prefix has the empty entity,
  so its item is written to the storage directory itself.
\<close>

definition sample_fs_blocked :: file_system where
  "sample_fs_blocked = set_node [''srv'', ''1''] (File True True ''x'') sample_fs"

lemma post_bare_prefix:
  "\<exists>res'. api_handler (ref_boost put) (''/srv'' @ ''/'') ''/api''
     (sample_request verb_post ''/api/'' ''x'') res sample_fs = Inr (res', sample_fs_blocked)"
proof -
  have p: "getPath ''/srv/'' [] 1 = ''/srv//1''" by code_simp
  have "bfs_exists (ref_boost put) sample_fs ''/srv//1'' = False"
    by (simp add: ref_boost_def sample_fs_def stat_def resolve_def path_start_def)
  then have "getNextId (ref_boost put) ''/srv/'' sample_fs [] = Inr 1"
    by (simp add: getNextId_def getNextId_loop.simps [of _ _ _ _ 1] p)
  moreover have "parent_path ''/srv//1'' = ''/srv''" by code_simp
  then have "FileStorage_write ''/srv/'' sample_fs [] 1 ''x'' = Inr sample_fs_blocked"
    by (simp add: FileStorage_write_def p create_directories_def sample_fs_def path_start_def ofstream_write_def
        resolve_def sample_fs_blocked_def)
  moreover have "after_last_slash ''/api/'' = []" by code_simp
  ultimately show ?thesis
    by (simp add: api_defs CRUDHandler_def CRUDHandler_create_def)
qed

section \<open>Any target\<close>

lemma api_handler_wf:
  assumes B: "boost_laws B" and "safe_cwd fs" and "api_handler B root pfx req res fs = Inr (res', fs')"
  shows "safe_cwd fs'"
  using assms(3) CRUDHandler_wf [OF B assms(2)] assms(2)
  by (cases "req_method req")
     (auto simp: api_defs CRUDHandler_def Let_def bind_res_eq_Inr_iff split: option.splits if_splits)

end
