(* ===== verification/Handlers_Basic.thy ===== *)
theory Handlers_Basic
  imports Http
begin

text \<open>
  The handlers without state of their own: not found, echo, health and sleep
  (\<^verbatim>\<open>src/request_handler/request_handler_{404,echo,health,sleep}.cc\<close>), and the
  stand-alone request parser of \<^verbatim>\<open>src/http/request_parser.cc\<close>. What they print to
  the console is not modelled.
\<close>

section \<open>The handlers\<close>

definition RequestHandler404_getName :: string where
  "RequestHandler404_getName = ''404Handler''"

definition RequestHandler404_handleRequest :: "boost \<Rightarrow> request \<Rightarrow> response \<Rightarrow> response" where
  "RequestHandler404_handleRequest B req res =
     (let res = res\<lparr>res_result := status_not_found\<rparr>;
          res = res\<lparr>res_version := req_version req\<rparr>;
          res = res_set B field_content_type ''text/plain'' res;
          res = res\<lparr>res_body := ''Invalid request type, Handler not found''\<rparr>;
          res = res_content_length B (length (res_body res)) res
      in prepare_payload B res)"

definition RequestHandlerEcho_getName :: string where
  "RequestHandlerEcho_getName = ''EchoHandler''"

definition crlf :: string where
  "crlf = [CHR 0x0D, CHR 0x0A]"

definition field_line :: "string \<times> string \<Rightarrow> string" where
  "field_line f = fst f @ '': '' @ snd f @ crlf"

definition start_line :: "request \<Rightarrow> string" where
  "start_line req = req_method_string req @ '' '' @ req_target req @ '' HTTP/'' @
     nat_to_string (req_version req div 10) @ ''.'' @ nat_to_string (req_version req mod 10) @ crlf"

definition requestToString :: "request \<Rightarrow> string" where
  "requestToString req = start_line req @ concat (map field_line (req_fields req)) @ crlf @ req_body req"

definition RequestHandlerEcho_handleRequest :: "boost \<Rightarrow> request \<Rightarrow> response \<Rightarrow> response" where
  "RequestHandlerEcho_handleRequest B req res =
     (let res = res\<lparr>res_version := req_version req\<rparr>;
          res = res\<lparr>res_result := status_ok\<rparr>;
          res = res\<lparr>res_body := requestToString req\<rparr>;
          res = res_set B field_content_type ''text/plain'' res;
          res = res_content_length B (length (res_body res)) res
      in prepare_payload B res)"

definition RequestHandlerHealth_getName :: string where
  "RequestHandlerHealth_getName = ''HealthHandler''"

definition RequestHandlerHealth_handleRequest :: "boost \<Rightarrow> request \<Rightarrow> response \<Rightarrow> response" where
  "RequestHandlerHealth_handleRequest B req res =
     (let res = res\<lparr>res_version := req_version req\<rparr>;
          res = res\<lparr>res_result := status_ok\<rparr>;
          res = res\<lparr>res_body := ''OK''\<rparr>;
          res = res_set B field_content_type ''text/plain'' res;
          res = res_content_length B (length (res_body res)) res
      in prepare_payload B res)"

text \<open>
  The clock counts nanoseconds. \<^verbatim>\<open>sleep_for\<close> blocks the thread for the given time;
  the model lets it wake up on time.
\<close>

definition sleep_for :: "int \<Rightarrow> int \<Rightarrow> int" where
  "sleep_for seconds clock = clock + seconds * 1000000000"

definition RequestHandlerSleep_getName :: string where
  "RequestHandlerSleep_getName = ''SleepHandler''"

definition RequestHandlerSleep_handleRequest :: "boost \<Rightarrow> request \<Rightarrow> response \<Rightarrow> int \<Rightarrow> response \<times> int" where
  "RequestHandlerSleep_handleRequest B req res clock =
     (let clock = sleep_for 5 clock;
          res = res\<lparr>res_result := status_ok\<rparr>;
          res = res\<lparr>res_version := req_version req\<rparr>;
          res = res_set B field_content_type ''text/plain'' res;
          res = res\<lparr>res_body := ''Processed after a delay''\<rparr>
      in (prepare_payload B res, clock))"

section \<open>The request parser\<close>

record RequestParser =
  parser_req :: request

text \<open>
  The parser is created afresh for every call; \<^verbatim>\<open>req_\<close> changes only when a complete
  request was read.
\<close>

definition RequestParser_parse :: "boost \<Rightarrow> string \<Rightarrow> RequestParser \<Rightarrow> bool \<times> RequestParser" where
  "RequestParser_parse B raw_request p =
     (case parser_put B raw_request of
        Put_error msg \<Rightarrow> (False, p)
      | Put_done req \<Rightarrow> (True, p\<lparr>parser_req := req\<rparr>)
      | Put_more \<Rightarrow> (False, p)
      | Put_throws msg \<Rightarrow> (False, p))"

definition getRequest :: "RequestParser \<Rightarrow> request" where
  "getRequest p = parser_req p"

section \<open>Echo loses nothing\<close>

text \<open>
  A request in the shape the HTTP grammar gives it: no blank in method and target, field names
  without colon and not starting with a carriage return, values without a carriage return.
\<close>

definition wf_field :: "string \<times> string \<Rightarrow> bool" where
  "wf_field f \<longleftrightarrow> CHR '':'' \<notin> set (fst f) \<and> take 1 (fst f) \<noteq> [CHR 0x0D] \<and> CHR 0x0D \<notin> set (snd f)"

definition wf_request :: "request \<Rightarrow> bool" where
  "wf_request req \<longleftrightarrow> CHR '' '' \<notin> set (req_method_string req) \<and> CHR '' '' \<notin> set (req_target req) \<and>
     list_all wf_field (req_fields req)"

lemma split_at_char:
  fixes c :: char
  assumes "u @ c # x = v @ c # y" and "c \<notin> set u" and "c \<notin> set v"
  shows "u = v \<and> x = y"
proof -
  have "length u = length v"
    using find_char_append_notin [OF assms(2), of x] find_char_append_notin [OF assms(3), of y] assms(1) by simp
  then show ?thesis using assms(1) by simp
qed

lemma nat_to_string_split:
  assumes "nat_to_string m @ c # x = nat_to_string n @ c # y" and "\<not> isdigit c"
  shows "m = n \<and> x = y"
  using split_at_char [OF assms(1)] assms(2) nat_to_string_digits by (metis nat_to_string_inj)

lemma field_lines_inj:
  assumes "concat (map field_line fs) @ crlf @ d = concat (map field_line gs) @ crlf @ e"
    and "list_all wf_field fs" and "list_all wf_field gs"
  shows "fs = gs \<and> d = e"
  using assms
proof (induction fs arbitrary: gs)
  case Nil
  then show ?case
    by (cases gs) (auto simp: field_line_def crlf_def wf_field_def Cons_eq_append_conv)
next
  case (Cons f fs)
  show ?case
  proof (cases gs)
    case Nil
    then show ?thesis using Cons.prems by (auto simp: field_line_def crlf_def wf_field_def append_eq_Cons_conv)
  next
    case (Cons g gs')
    let ?rest = "\<lambda>hs t. concat (map field_line hs) @ crlf @ t"
    note wf = Cons.prems(2,3) [unfolded Cons, simplified]
    have e1: "fst f @ CHR '':'' # (CHR '' '' # snd f @ crlf @ ?rest fs d) =
        fst g @ CHR '':'' # (CHR '' '' # snd g @ crlf @ ?rest gs' e)"
      using Cons.prems(1) Cons by (simp add: field_line_def [of f] field_line_def [of g])
    then have f: "fst f = fst g \<and> CHR '' '' # snd f @ crlf @ ?rest fs d = CHR '' '' # snd g @ crlf @ ?rest gs' e"
      by (rule split_at_char) (use wf in \<open>simp_all add: wf_field_def\<close>)
    then have "snd f @ CHR 0x0D # CHR 0x0A # ?rest fs d = snd g @ CHR 0x0D # CHR 0x0A # ?rest gs' e"
      by (simp add: crlf_def)
    then have "snd f = snd g \<and> CHR 0x0A # ?rest fs d = CHR 0x0A # ?rest gs' e"
      by (rule split_at_char) (use wf in \<open>simp_all add: wf_field_def\<close>)
    moreover note f
    ultimately show ?thesis
      using Cons.IH [of gs'] wf Cons by (simp add: prod_eq_iff)
  qed
qed

text \<open>
  The echo response determines the request: two well-formed requests with the same echo body
  agree in method text, target, version, header fields and body.
\<close>

lemma echo_injective:
  assumes "wf_request req1" and "wf_request req2"
    and "res_body (RequestHandlerEcho_handleRequest B req1 res1) = res_body (RequestHandlerEcho_handleRequest B req2 res2)"
  shows "req_method_string req1 = req_method_string req2 \<and> req_target req1 = req_target req2 \<and>
    req_version req1 = req_version req2 \<and> req_fields req1 = req_fields req2 \<and> req_body req1 = req_body req2"
proof -
  let ?after_target = "\<lambda>req. ''HTTP/'' @ nat_to_string (req_version req div 10) @ ''.'' @
    nat_to_string (req_version req mod 10) @ crlf @ concat (map field_line (req_fields req)) @ crlf @ req_body req"
  have "req_method_string req1 @ CHR '' '' # req_target req1 @ CHR '' '' # ?after_target req1 =
      req_method_string req2 @ CHR '' '' # req_target req2 @ CHR '' '' # ?after_target req2"
    using assms(3) by (simp add: RequestHandlerEcho_handleRequest_def Let_def requestToString_def start_line_def)
  from split_at_char [OF this] assms(1,2)
  have m: "req_method_string req1 = req_method_string req2"
    and "req_target req1 @ CHR '' '' # ?after_target req1 = req_target req2 @ CHR '' '' # ?after_target req2"
    by (simp_all add: wf_request_def)
  from split_at_char [OF this(2)] assms(1,2)
  have t: "req_target req1 = req_target req2" and "?after_target req1 = ?after_target req2"
    by (simp_all add: wf_request_def)
  from this(2) obtain x y where xy: "nat_to_string (req_version req1 div 10) @ CHR ''.'' # x = nat_to_string (req_version req2 div 10) @ CHR ''.'' # y"
      "x = nat_to_string (req_version req1 mod 10) @ crlf @ concat (map field_line (req_fields req1)) @ crlf @ req_body req1"
      "y = nat_to_string (req_version req2 mod 10) @ crlf @ concat (map field_line (req_fields req2)) @ crlf @ req_body req2"
    by simp
  have dv: "req_version req1 div 10 = req_version req2 div 10 \<and> x = y"
    by (rule nat_to_string_split [OF xy(1)]) (simp add: isdigit_def)
  then have "nat_to_string (req_version req1 mod 10) @ CHR 0x0D # CHR 0x0A # concat (map field_line (req_fields req1)) @ crlf @ req_body req1 =
      nat_to_string (req_version req2 mod 10) @ CHR 0x0D # CHR 0x0A # concat (map field_line (req_fields req2)) @ crlf @ req_body req2"
    using xy by (simp add: crlf_def)
  from nat_to_string_split [OF this]
  have md: "req_version req1 mod 10 = req_version req2 mod 10"
    and "concat (map field_line (req_fields req1)) @ crlf @ req_body req1 = concat (map field_line (req_fields req2)) @ crlf @ req_body req2"
    by (simp_all add: isdigit_def)
  moreover from this(2) have "req_fields req1 = req_fields req2 \<and> req_body req1 = req_body req2"
    by (rule field_lines_inj) (use assms(1,2) in \<open>simp_all add: wf_request_def\<close>)
  moreover have "req_version req1 = req_version req2" using dv md by (metis div_mult_mod_eq)
  ultimately show ?thesis using m t by simp
qed

text \<open>
  The stand-alone parser reports success exactly when a complete request was read without
  error, and then returns it; otherwise it keeps the request of the last success.
\<close>

theorem RequestParser_parse_iff:
  "(RequestParser_parse B raw p = (True, p') \<longleftrightarrow> (\<exists>req. parser_put B raw = Put_done req \<and> getRequest p' = req)) \<and>
   (RequestParser_parse B raw p = (False, p') \<longleftrightarrow> (\<nexists>req. parser_put B raw = Put_done req) \<and> getRequest p' = getRequest p)"
  by (auto simp: RequestParser_parse_def getRequest_def split: put_result.splits)

end
