(* ===== verification/Handler_Static.thy ===== *)
theory Handler_Static
  imports Http
begin

text \<open>
  \<^verbatim>\<open>RequestHandlerStatic\<close> of
  \<^verbatim>\<open>src/request_handler/request_handler_static.cc\<close> and the table of
  \<^verbatim>\<open>src/http/mime_types.{h,cc}\<close>.
\<close>

section \<open>MIME types\<close>

record mapping =
  extension :: string
  mime_type :: string

definition mappings :: "mapping list" where
  "mappings = [
     \<lparr>extension = ''gif'', mime_type = ''image/gif''\<rparr>,
     \<lparr>extension = ''htm'', mime_type = ''text/html''\<rparr>,
     \<lparr>extension = ''html'', mime_type = ''text/html''\<rparr>,
     \<lparr>extension = ''jpg'', mime_type = ''image/jpeg''\<rparr>,
     \<lparr>extension = ''png'', mime_type = ''image/png''\<rparr>,
     \<lparr>extension = ''pdf'', mime_type = ''application/pdf''\<rparr>]"

fun extension_lookup :: "mapping list \<Rightarrow> string \<Rightarrow> string" where
  "extension_lookup [] ext = ''text/plain''"
| "extension_lookup (m # ms) ext = (if extension m = ext then mime_type m else extension_lookup ms ext)"

definition extension_to_type :: "string \<Rightarrow> string" where
  "extension_to_type ext = extension_lookup mappings ext"

section \<open>The handler\<close>

text \<open>\<^verbatim>\<open>s.replace(0, n, t)\<close>, where \<open>n\<close> may exceed the length.\<close>

definition replace_front :: "nat \<Rightarrow> string \<Rightarrow> string \<Rightarrow> string" where
  "replace_front n t s = t @ drop n s"

definition static_path :: "string \<Rightarrow> string \<Rightarrow> string \<Rightarrow> string" where
  "static_path root pfx target =
     (let uri = target;
          uri = replace_front (length pfx) root uri
      in replace_front 1 ''../'' uri)"

definition static_not_found :: "boost \<Rightarrow> request \<Rightarrow> response \<Rightarrow> response" where
  "static_not_found B req res =
     (let res = res\<lparr>res_result := status_not_found\<rparr>;
          res = res\<lparr>res_version := req_version req\<rparr>;
          res = res_set B field_content_type ''text/plain'' res;
          res = res\<lparr>res_body := ''File not found''\<rparr>
      in prepare_payload B res)"

definition uri_extension :: "string \<Rightarrow> string" where
  "uri_extension uri = (case find_last_of CHR ''.'' uri of None \<Rightarrow> [] | Some cursor \<Rightarrow> drop (cursor + 1) uri)"

definition RequestHandlerStatic_getName :: string where
  "RequestHandlerStatic_getName = ''StaticHandler''"

definition RequestHandlerStatic_handleRequest ::
  "boost \<Rightarrow> string \<Rightarrow> string \<Rightarrow> request \<Rightarrow> response \<Rightarrow> file_system \<Rightarrow> response" where
  "RequestHandlerStatic_handleRequest B root pfx req res fs =
     (let uri = static_path root pfx (req_target req) in
      if \<not> bfs_exists B fs uri \<or> \<not> bfs_is_regular_file B fs uri then static_not_found B req res
      else case ifstream_read fs uri of
        None \<Rightarrow> static_not_found B req res
      | Some body \<Rightarrow>
          (let ext = uri_extension uri;
               res = res\<lparr>res_result := status_ok\<rparr>;
               res = res\<lparr>res_version := req_version req\<rparr>;
               res = res_set B field_content_length (nat_to_string (length body)) res;
               res = res_set B field_content_type (extension_to_type ext) res;
               res = res\<lparr>res_body := body\<rparr>
           in prepare_payload B res))"

section \<open>Properties\<close>

lemma static_path_below: "root \<noteq> [] \<Longrightarrow> static_path root pfx (pfx @ t) = ''../'' @ tl root @ t"
  by (cases root) (simp_all add: static_path_def replace_front_def)

lemma uri_extension_dot: "CHR ''.'' \<notin> set ext \<Longrightarrow> uri_extension (u @ ''.'' @ ext) = ext"
  by (simp add: uri_extension_def find_last_of_append_notin)

text \<open>Without a dot in the file part, the last dot is the one of \<^verbatim>\<open>../\<close>.\<close>

lemma uri_extension_no_dot: "CHR ''.'' \<notin> set t \<Longrightarrow> uri_extension (''../'' @ t) = CHR ''/'' # t"
  using find_last_of_append_notin [of "CHR ''.''" "CHR ''/'' # t" "''.''"] by (simp add: uri_extension_def)

lemma extension_to_type_slash: "extension_to_type (CHR ''/'' # t) = ''text/plain''"
  by (simp add: extension_to_type_def mappings_def)

text \<open>
  C26. The static handler answers 200 exactly when the path made of root and rest of the target
  names a readable regular file, and then the body is the content of the file with its length as
  Content-Length and a Content-Type from the extension; in every other case it answers 404 with a
  plain text body.
\<close>

theorem static_serves_file:
  assumes "boost_laws B" and "root \<noteq> []" and "req_target req = pfx @ t"
  shows "(let res' = RequestHandlerStatic_handleRequest B root pfx req res fs in
    res_version res' = req_version req \<and>
    res_find B field_content_length res' = Some (nat_to_string (length (res_body res'))) \<and>
    (case stat fs (''../'' @ tl root @ t) of
       Some (File True wr c) \<Rightarrow> res_result res' = status_ok \<and> res_body res' = c \<and>
         res_find B field_content_type res' = Some (extension_to_type (uri_extension (''../'' @ tl root @ t)))
     | _ \<Rightarrow> res_result res' = status_not_found \<and> res_body res' = ''File not found'' \<and>
         res_find B field_content_type res' = Some ''text/plain''))"
proof -
  note [simp] = boost_laws.res_find_set [OF assms(1)] boost_laws.res_find_prepare_length [OF assms(1)]
    boost_laws.res_find_prepare [OF assms(1)] boost_laws.exists_stat [OF assms(1)]
    boost_laws.is_regular_case [OF assms(1)]
  have p: "static_path root pfx (req_target req) = ''../'' @ tl root @ t"
    using static_path_below [OF assms(2)] assms(3) by simp
  show ?thesis
    by (simp add: RequestHandlerStatic_handleRequest_def p Let_def static_not_found_def ifstream_read_def
        split: option.split node.split bool.split)
qed

definition sample_static_fs :: file_system where
  "sample_static_fs = \<lparr>nodes = [[] \<mapsto> Dir, [''build''] \<mapsto> Dir, [''data''] \<mapsto> Dir,
      [''data'', ''a.html''] \<mapsto> File True False ''hello'', [''key''] \<mapsto> File True True ''secret''],
     cwd = [''build'']\<rparr>"

definition sample_get :: "string \<Rightarrow> request" where
  "sample_get t = \<lparr>req_method = verb_get, req_method_string = ''GET'', req_target = t, req_version = 11,
     req_fields = [], req_body = []\<rparr>"

theorem static_serves_file_witness:
  "res_body (RequestHandlerStatic_handleRequest (ref_boost (\<lambda>_. Put_more)) ''/data'' ''/static''
     (sample_get (''/static'' @ ''/a.html'')) (make_response status_ok 11) sample_static_fs) = ''hello''"
proof -
  have "stat sample_static_fs (''../'' @ tl ''/data'' @ ''/a.html'') = Some (File True False ''hello'')"
    by (simp add: stat_def resolve_def path_start_def sample_static_fs_def)
  then show ?thesis
    using static_serves_file [OF ref.boost_laws_axioms, of "''/data''" "sample_get (''/static'' @ ''/a.html'')" "''/static''"
        "''/a.html''" "\<lambda>_. Put_more" "make_response status_ok 11" sample_static_fs]
    by (simp add: sample_get_def Let_def)
qed

text \<open>
  The Content-Type follows the last extension of the name: the listed type for a listed
  extension, \<^verbatim>\<open>text/plain\<close> for any other and for a path without a dot.
\<close>

lemma static_content_type:
  assumes "boost_laws B" and "root \<noteq> []" and "req_target req = pfx @ t"
    and "stat fs (''../'' @ tl root @ t) = Some (File True wr c)"
  shows "(CHR ''.'' \<notin> set ext \<and> t = u @ ''.'' @ ext \<longrightarrow>
      res_find B field_content_type (RequestHandlerStatic_handleRequest B root pfx req res fs) =
        Some (case map_of (map (\<lambda>m. (extension m, mime_type m)) mappings) ext of Some ty \<Rightarrow> ty | None \<Rightarrow> ''text/plain'')) \<and>
    (CHR ''.'' \<notin> set (tl root @ t) \<longrightarrow>
      res_find B field_content_type (RequestHandlerStatic_handleRequest B root pfx req res fs) = Some ''text/plain'')"
proof -
  note [simp] = boost_laws.res_find_set [OF assms(1)] boost_laws.res_find_prepare [OF assms(1)]
    boost_laws.exists_stat [OF assms(1)] boost_laws.is_regular_case [OF assms(1)]
  have p: "static_path root pfx (req_target req) = ''../'' @ tl root @ t"
    using static_path_below [OF assms(2)] assms(3) by simp
  have ty: "res_find B field_content_type (RequestHandlerStatic_handleRequest B root pfx req res fs) =
      Some (extension_to_type (uri_extension (''../'' @ tl root @ t)))"
    using assms(4) by (simp add: RequestHandlerStatic_handleRequest_def p Let_def ifstream_read_def)
  have lookup: "extension_lookup ms e = (case map_of (map (\<lambda>m. (extension m, mime_type m)) ms) e of
      Some ty \<Rightarrow> ty | None \<Rightarrow> ''text/plain'')" for ms e
    by (induction ms) auto
  have "uri_extension (''../'' @ tl root @ t) = ext" if "CHR ''.'' \<notin> set ext" "t = u @ ''.'' @ ext"
    using uri_extension_dot [OF that(1), of "''../'' @ tl root @ u"] that(2) by simp
  moreover have "extension_to_type (uri_extension (''../'' @ tl root @ t)) = ''text/plain''"
    if "CHR ''.'' \<notin> set (tl root @ t)"
    using uri_extension_no_dot [OF that] extension_to_type_slash by simp
  ultimately show ?thesis using ty lookup [of mappings ext] by (simp add: extension_to_type_def)
qed

text \<open>
  C39. The target is not normalised: with a root that is a directory beside the working
  directory's parent entries, \<^verbatim>\<open>/..\<close> in the target leaves the root, and the handler
  serves any readable regular file next to it.
\<close>

theorem static_path_traversal:
  assumes "boost_laws B" and "wf_fs fs" and "cwd fs = k @ [w]" and "plain_name d" and "plain_name n"
    and "nodes fs (k @ [d]) = Some Dir" and "nodes fs (k @ [n]) = Some (File True wr c)"
    and "req_target req = pfx @ ''/../'' @ n"
  shows "res_result (RequestHandlerStatic_handleRequest B (''/'' @ d) pfx req res fs) = status_ok \<and>
    res_body (RequestHandlerStatic_handleRequest B (''/'' @ d) pfx req res fs) = c"
proof -
  note [simp] = boost_laws.exists_stat [OF assms(1)] boost_laws.is_regular_case [OF assms(1)]
  let ?uri = "''../'' @ d @ ''/../'' @ n"
  have p: "static_path (''/'' @ d) pfx (req_target req) = ?uri"
    using static_path_below [of "''/'' @ d" pfx "''/../'' @ n"] assms(8) by simp
  have "split_path ?uri = [''..'', d, ''..'', n]"
    using assms(4,5) split_path_append_slash [of d "''../'' @ n"]
    by (simp add: plain_name_def split_path_name)
  moreover have "nodes fs (k @ [w]) = Some Dir"
    using assms(2,3) unfolding wf_fs_def by auto
  then have "nodes fs (k @ [w]) \<noteq> None" by simp
  then have "nodes fs k = Some Dir" using assms(2) unfolding wf_fs_def by blast
  ultimately have "resolve fs ?uri = Some (k @ [n])"
    using assms(2-6) \<open>nodes fs (k @ [w]) = Some Dir\<close>
    by (simp add: resolve_def path_start_def plain_name_def)
  then have "stat fs ?uri = Some (File True wr c)" using assms(7) by (simp add: stat_def)
  then show ?thesis
    unfolding RequestHandlerStatic_handleRequest_def p by (simp add: Let_def ifstream_read_def)
qed

theorem static_path_traversal_witness:
  "res_body (RequestHandlerStatic_handleRequest (ref_boost (\<lambda>_. Put_more)) (''/'' @ ''data'') ''/static''
     (sample_get (''/static'' @ ''/../'' @ ''key'')) (make_response status_ok 11) sample_static_fs) = ''secret''"
proof -
  have "wf_fs sample_static_fs"
    by (auto simp: wf_fs_def sample_static_fs_def split: if_splits)
  then show ?thesis
    using static_path_traversal [OF ref.boost_laws_axioms, of sample_static_fs "[]" "''build''" "''data''" "''key''" True "''secret''"
        "sample_get (''/static'' @ ''/../'' @ ''key'')" "''/static''" "\<lambda>_. Put_more" "make_response status_ok 11"]
    by (simp add: sample_static_fs_def sample_get_def plain_name_def)
qed

end
