(* ===== verification/Dispatcher.thy ===== *)
theory Dispatcher
  imports Config_Query Logger Handler_API Handlers_Basic Handler_Static
begin

text \<open>
  The abstract class \<^verbatim>\<open>RequestHandler\<close> with its six implementations and
  \<^verbatim>\<open>RequestHandlerDispatcher\<close> of
  \<^verbatim>\<open>src/request_handler_dispatcher.cc\<close>: which handler a configuration registers for
  which path, and which handler a request target reaches.
\<close>

section \<open>Handlers\<close>

text \<open>
  The objects a \<^verbatim>\<open>shared_ptr<RequestHandler>\<close> can point to, with the data their
  constructors keep; an API handler owns a \<^verbatim>\<open>CRUDHandler\<close> on its root.
\<close>

datatype RequestHandler =
    RequestHandler404
  | RequestHandlerStatic (handler_root: string) (handler_prefix: string)
  | RequestHandlerEcho
  | RequestHandlerAPI (handler_root: string) (handler_prefix: string)
  | RequestHandlerHealth
  | RequestHandlerSleep

fun getName :: "RequestHandler \<Rightarrow> string" where
  "getName RequestHandler404 = RequestHandler404_getName"
| "getName (RequestHandlerStatic root pfx) = RequestHandlerStatic_getName"
| "getName RequestHandlerEcho = RequestHandlerEcho_getName"
| "getName (RequestHandlerAPI root pfx) = RequestHandlerAPI_getName"
| "getName RequestHandlerHealth = RequestHandlerHealth_getName"
| "getName RequestHandlerSleep = RequestHandlerSleep_getName"

text \<open>What a handler can touch besides the response: the file system and the time that passes.\<close>

record world =
  disk :: file_system
  clock :: int

fun handleRequest :: "boost \<Rightarrow> RequestHandler \<Rightarrow> request \<Rightarrow> response \<Rightarrow> world \<Rightarrow> (response \<times> world) res" where
  "handleRequest B RequestHandler404 req res w = Inr (RequestHandler404_handleRequest B req res, w)"
| "handleRequest B (RequestHandlerStatic root pfx) req res w =
     Inr (RequestHandlerStatic_handleRequest B root pfx req res (disk w), w)"
| "handleRequest B RequestHandlerEcho req res w = Inr (RequestHandlerEcho_handleRequest B req res, w)"
| "handleRequest B (RequestHandlerAPI root pfx) req res w =
     bind_res (RequestHandlerAPI_handleRequest B (CRUDHandler B root) pfx req res (disk w))
       (\<lambda>(res, fs). Inr (res, w\<lparr>disk := fs\<rparr>))"
| "handleRequest B RequestHandlerHealth req res w = Inr (RequestHandlerHealth_handleRequest B req res, w)"
| "handleRequest B RequestHandlerSleep req res w =
     (let (res, t) = RequestHandlerSleep_handleRequest B req res (clock w) in Inr (res, w\<lparr>clock := t\<rparr>))"

section \<open>The dispatcher\<close>

type_synonym handlers = "RequestHandler smap"

fun root_loop :: "NginxConfigStatement list \<Rightarrow> string \<Rightarrow> string res" where
  "root_loop [] root = Inr root"
| "root_loop (NginxConfigStatement ts child # sts) root =
     (if ts = [] then Inl Out_Of_Range
      else root_loop sts (if ts ! 0 = ''root'' \<and> length ts = 2 then ts ! 1 else root))"

definition registerPath :: "string \<Rightarrow> string \<Rightarrow> NginxConfig \<Rightarrow> handlers \<Rightarrow> (bool \<times> handlers) res" where
  "registerPath path_uri handler_type config hs =
     (let path_uri = strip_trailing_slashes path_uri in
      if map_of hs path_uri \<noteq> None then Inr (False, hs)
      else if handler_type = ''StaticHandler'' then
        bind_res (root_loop (statements config) ''/'') (\<lambda>root.
        Inr (True, smap_assign path_uri (RequestHandlerStatic root path_uri) hs))
      else if handler_type = ''EchoHandler'' then
        Inr (True, smap_assign path_uri RequestHandlerEcho hs)
      else if handler_type = ''APIHandler'' then
        bind_res (root_loop (statements config) ''/'') (\<lambda>root.
        Inr (True, smap_assign path_uri (RequestHandlerAPI root path_uri) hs))
      else if handler_type = ''HealthHandler'' then
        Inr (True, smap_assign path_uri RequestHandlerHealth hs)
      else if handler_type = ''SleepHandler'' then
        Inr (True, smap_assign path_uri RequestHandlerSleep hs)
      else Inr (False, hs))"

text \<open>
  The loop over the statements of the server block. \<^verbatim>\<open>tokens_[1]\<close> and
  \<^verbatim>\<open>tokens_[2]\<close> are read without a size check, and
  \<^verbatim>\<open>*child_block_\<close> without a null check.
\<close>

fun location_loop :: "NginxConfigStatement list \<Rightarrow> nat \<Rightarrow> handlers \<Rightarrow> logger_ptr \<Rightarrow> (nat \<times> handlers \<times> logger_ptr) res" where
  "location_loop [] num_registered hs lg = Inr (num_registered, hs, lg)"
| "location_loop (NginxConfigStatement ts child # sts) num_registered hs lg =
     (if ts = [] then Inl Out_Of_Range
      else if ts ! 0 \<noteq> ''location'' then location_loop sts num_registered hs lg
      else if length ts < 3 then Inl Out_Of_Range
      else case child of
        None \<Rightarrow> Inl Null_Dereference
      | Some block \<Rightarrow>
          bind_res (registerPath (ts ! 1) (ts ! 2) block hs) (\<lambda>(registered, hs).
          if registered
          then location_loop sts (num_registered + 1) hs (logDebugFile (''Initialized handler: '' @ ts ! 2) lg)
          else location_loop sts num_registered hs lg))"

fun server_loop :: "NginxConfigStatement list \<Rightarrow> nat \<Rightarrow> handlers \<Rightarrow> logger_ptr \<Rightarrow> (nat \<times> handlers \<times> logger_ptr) res" where
  "server_loop [] num_registered hs lg = Inr (num_registered, hs, lg)"
| "server_loop (NginxConfigStatement ts child # sts) num_registered hs lg =
     (if ts = [] then Inl Out_Of_Range
      else if ts ! 0 = ''server'' then
        (if length ts \<noteq> 1 then server_loop sts num_registered hs lg
         else case child of
           None \<Rightarrow> Inl Null_Dereference
         | Some block \<Rightarrow> location_loop (statements block) num_registered hs lg)
      else server_loop sts num_registered hs lg)"

definition initRequestHandlers :: "NginxConfig \<Rightarrow> handlers \<Rightarrow> logger_ptr \<Rightarrow> (nat \<times> handlers \<times> logger_ptr) res" where
  "initRequestHandlers config hs lg =
     bind_res (server_loop (statements config) 0 hs (getLogger lg)) (\<lambda>(num_registered, hs, lg).
     Inr (num_registered, if map_of hs ''/'' = None then smap_assign ''/'' RequestHandler404 hs else hs, lg))"

definition RequestHandlerDispatcher :: "NginxConfig \<Rightarrow> logger_ptr \<Rightarrow> (handlers \<times> logger_ptr) res" where
  "RequestHandlerDispatcher config lg = bind_res (initRequestHandlers config [] lg) (\<lambda>(_, hs, lg). Inr (hs, lg))"

fun match_loop :: "string \<Rightarrow> handlers \<Rightarrow> string \<Rightarrow> RequestHandler option \<Rightarrow> RequestHandler option" where
  "match_loop uri [] matched_prefix matched_handler = matched_handler"
| "match_loop uri ((k, h) # entries) matched_prefix matched_handler =
     (if take (length k) uri = k \<and> length k > length matched_prefix
      then match_loop uri entries k (Some h)
      else match_loop uri entries matched_prefix matched_handler)"

definition getRequestHandler :: "handlers \<Rightarrow> string \<Rightarrow> RequestHandler option" where
  "getRequestHandler hs target = match_loop (strip_trailing_slashes target) hs [] None"

section \<open>Matching\<close>

lemma take_length_eq_prefix: "take (length k) uri = k \<longleftrightarrow> prefix k uri"
  by (metis append_eq_conv_conj prefix_def)

definition longest_match :: "handlers \<Rightarrow> string \<Rightarrow> string \<Rightarrow> bool" where
  "longest_match hs uri k \<longleftrightarrow> k \<noteq> [] \<and> prefix k uri \<and> (\<forall>k'\<in>fst ` set hs. prefix k' uri \<longrightarrow> length k' \<le> length k)"

lemma match_loop_None_iff:
  "match_loop uri es mp mh = None \<longleftrightarrow> mh = None \<and> (\<forall>(k, h)\<in>set es. prefix k uri \<longrightarrow> length k \<le> length mp)"
  by (induction uri es mp mh rule: match_loop.induct) (auto simp: take_length_eq_prefix not_less)

lemma match_loop_Some:
  "match_loop uri es mp mh = Some h \<Longrightarrow>
   (mh = Some h \<and> (\<forall>(k, h)\<in>set es. prefix k uri \<longrightarrow> length k \<le> length mp)) \<or>
   (\<exists>k. (k, h) \<in> set es \<and> prefix k uri \<and> length mp < length k \<and>
        (\<forall>(k', h')\<in>set es. prefix k' uri \<longrightarrow> length k' \<le> length k))"
proof (induction uri es mp mh rule: match_loop.induct)
  case (2 uri k h' entries mp mh)
  show ?case
  proof (cases "prefix k uri \<and> length k > length mp")
    case True
    then have "match_loop uri entries k (Some h') = Some h" using "2.prems" by (simp add: take_length_eq_prefix)
    with "2.IH"(1) True consider "h' = h" "\<forall>(k', h)\<in>set entries. prefix k' uri \<longrightarrow> length k' \<le> length k"
      | k2 where "(k2, h) \<in> set entries" "prefix k2 uri" "length k < length k2"
          "\<forall>(k', h')\<in>set entries. prefix k' uri \<longrightarrow> length k' \<le> length k2"
      by (auto simp: take_length_eq_prefix)
    then show ?thesis
    proof cases
      case 1
      with True show ?thesis by auto
    next
      case (2 k2)
      with True show ?thesis by (intro disjI2 exI [of _ k2]) auto
    qed
  next
    case False
    then have "match_loop uri entries mp mh = Some h" using "2.prems" by (auto simp: take_length_eq_prefix)
    with "2.IH"(2) False consider "mh = Some h" "\<forall>(k', h)\<in>set entries. prefix k' uri \<longrightarrow> length k' \<le> length mp"
      | k2 where "(k2, h) \<in> set entries" "prefix k2 uri" "length mp < length k2"
          "\<forall>(k', h')\<in>set entries. prefix k' uri \<longrightarrow> length k' \<le> length k2"
      by (auto simp: take_length_eq_prefix)
    then show ?thesis
    proof cases
      case 1
      with False show ?thesis by auto
    next
      case (2 k2)
      with False show ?thesis by (intro disjI2 exI [of _ k2]) auto
    qed
  qed
qed simp

lemma longest_match_unique: "longest_match hs uri k \<Longrightarrow> longest_match hs uri k' \<Longrightarrow> k \<in> fst ` set hs \<Longrightarrow> k' \<in> fst ` set hs \<Longrightarrow> k = k'"
  by (metis longest_match_def order_antisym prefix_order.antisym prefix_length_prefix order_refl)

lemma match_loop_longest:
  assumes "match_loop uri hs [] None = Some h"
  shows "\<exists>k. (k, h) \<in> set hs \<and> longest_match hs uri k"
proof -
  obtain k where "(k, h) \<in> set hs" "prefix k uri" "k \<noteq> []" "\<forall>(k', h')\<in>set hs. prefix k' uri \<longrightarrow> length k' \<le> length k"
    using match_loop_Some [OF assms] by auto
  then show ?thesis by (intro exI [of _ k]) (auto simp: longest_match_def)
qed

lemma getRequestHandler_iff:
  assumes "smap_inv hs"
  shows "getRequestHandler hs target = Some h \<longleftrightarrow>
    (\<exists>k. map_of hs k = Some h \<and> longest_match hs (strip_trailing_slashes target) k)"
proof
  let ?uri = "strip_trailing_slashes target"
  assume "getRequestHandler hs target = Some h"
  then show "\<exists>k. map_of hs k = Some h \<and> longest_match hs ?uri k"
    using smap_inv_distinct [OF assms] match_loop_longest [of ?uri hs h] by (auto simp: getRequestHandler_def)
next
  let ?uri = "strip_trailing_slashes target"
  assume "\<exists>k. map_of hs k = Some h \<and> longest_match hs ?uri k"
  then obtain k where k: "map_of hs k = Some h" "longest_match hs ?uri k" by blast
  then have "(k, h) \<in> set hs" by (simp add: map_of_SomeD)
  then obtain h' where h': "match_loop ?uri hs [] None = Some h'"
    using k(2) match_loop_None_iff [of ?uri hs "[]" None] by (fastforce simp: longest_match_def)
  then obtain k' where "(k', h') \<in> set hs" "longest_match hs ?uri k'"
    using match_loop_longest [OF h'] by blast
  moreover from this have "k' = k"
    using longest_match_unique [OF _ k(2)] \<open>(k, h) \<in> set hs\<close> by force
  ultimately have "h' = h"
    using k(1) smap_inv_distinct [OF assms] by simp
  then show "getRequestHandler hs target = Some h" using h' by (simp add: getRequestHandler_def)
qed

lemma getRequestHandler_None_iff:
  "getRequestHandler hs target = None \<longleftrightarrow> (\<forall>k\<in>fst ` set hs. prefix k (strip_trailing_slashes target) \<longrightarrow> k = [])"
  by (auto simp: getRequestHandler_def match_loop_None_iff)

section \<open>What a configuration registers\<close>

text \<open>
  The specification of registration: a location statement stands for an entry, of a path without
  trailing slashes and a handler; the first entry of a path counts.
\<close>

definition block_root :: "NginxConfig \<Rightarrow> string" where
  "block_root block =
     last (''/'' # map (\<lambda>st. tokens st ! 1) (filter (\<lambda>st. length (tokens st) = 2 \<and> tokens st ! 0 = ''root'') (statements block)))"

definition make_handler :: "string \<Rightarrow> string \<Rightarrow> string \<Rightarrow> RequestHandler option" where
  "make_handler ty root path =
     map_of [(''StaticHandler'', RequestHandlerStatic root path), (''EchoHandler'', RequestHandlerEcho),
             (''APIHandler'', RequestHandlerAPI root path), (''HealthHandler'', RequestHandlerHealth),
             (''SleepHandler'', RequestHandlerSleep)] ty"

definition is_location :: "NginxConfigStatement \<Rightarrow> bool" where
  "is_location st \<longleftrightarrow> tokens st \<noteq> [] \<and> tokens st ! 0 = ''location''"

definition location_ok :: "NginxConfigStatement \<Rightarrow> bool" where
  "location_ok st \<longleftrightarrow> 3 \<le> length (tokens st) \<and> child_block st \<noteq> None"

definition location_entry :: "NginxConfigStatement \<Rightarrow> (string \<times> RequestHandler) option" where
  "location_entry st =
     (if is_location st then
        (case child_block st of
           None \<Rightarrow> None
         | Some block \<Rightarrow>
             (let path = strip_trailing_slashes (tokens st ! 1)
              in map_option (Pair path) (make_handler (tokens st ! 2) (block_root block) path)))
      else None)"

definition locations :: "NginxConfig \<Rightarrow> NginxConfigStatement list" where
  "locations config =
     (case find (\<lambda>st. tokens st = [''server'']) (statements config) of
        Some (NginxConfigStatement ts (Some block)) \<Rightarrow> filter is_location (statements block)
      | _ \<Rightarrow> [])"

lemma root_loop_wf:
  "list_all wf_statement sts \<Longrightarrow> root_loop sts root =
     Inr (last (root # map (\<lambda>st. tokens st ! 1) (filter (\<lambda>st. length (tokens st) = 2 \<and> tokens st ! 0 = ''root'') sts)))"
  by (induction sts root rule: root_loop.induct) auto

lemma root_loop_block: "wf_config block \<Longrightarrow> root_loop (statements block) ''/'' = Inr (block_root block)"
  by (cases block) (simp add: root_loop_wf block_root_def)

lemma registerPath_wf:
  assumes "wf_config block"
  shows "registerPath p ty block hs =
    Inr (case make_handler ty (block_root block) (strip_trailing_slashes p) of
           None \<Rightarrow> (False, hs)
         | Some h \<Rightarrow> if map_of hs (strip_trailing_slashes p) \<noteq> None then (False, hs)
                     else (True, smap_assign (strip_trailing_slashes p) h hs))"
  by (simp add: registerPath_def make_handler_def Let_def root_loop_block [OF assms])

lemma length_smap_assign: "map_of m k = None \<Longrightarrow> length (smap_assign k v m) = Suc (length m)"
  by (induction k v m rule: smap_assign.induct) (auto split: if_splits)

text \<open>One turn of the loop in terms of the entry of the statement.\<close>

lemma location_loop_entry:
  assumes "wf_statement st" and "is_location st \<longrightarrow> location_ok st"
  shows "location_loop (st # sts) n hs lg =
    (case location_entry st of
       None \<Rightarrow> location_loop sts n hs lg
     | Some (k, h) \<Rightarrow>
         if map_of hs k \<noteq> None then location_loop sts n hs lg
         else location_loop sts (n + 1) (smap_assign k h hs) (logDebugFile (''Initialized handler: '' @ tokens st ! 2) lg))"
proof -
  obtain ts child where st: "st = NginxConfigStatement ts child" by (cases st)
  have ts: "ts \<noteq> []" using assms(1) by (simp add: st)
  show ?thesis
  proof (cases "is_location st")
    case False
    then show ?thesis using ts by (simp add: st is_location_def location_entry_def)
  next
    case True
    then obtain block where block: "child = Some block" and len: "3 \<le> length ts" and loc: "ts ! 0 = ''location''"
      using assms(2) by (auto simp: location_ok_def is_location_def st)
    have "wf_config block" using assms(1) by (simp add: st block)
    then show ?thesis
      using True ts len loc by (simp add: st block registerPath_wf location_entry_def Let_def split: option.split)
  qed
qed

lemma location_loop_step:
  assumes "wf_statement st" and "is_location st \<longrightarrow> location_ok st" and "smap_inv hs" and "lg \<noteq> None"
  shows "\<exists>n1 hs1 lg1. location_loop (st # sts) n hs lg = location_loop sts n1 hs1 lg1 \<and> smap_inv hs1 \<and> lg1 \<noteq> None \<and>
    map_of hs1 = map_of (List.map_filter location_entry [st]) ++ map_of hs \<and> n1 + length hs = n + length hs1 \<and>
    (logger_inv lg \<longrightarrow> logger_inv lg1)"
proof (cases "\<exists>k h. location_entry st = Some (k, h) \<and> map_of hs k = None")
  case True
  then obtain k h where kh: "location_entry st = Some (k, h)" "map_of hs k = None" by blast
  then have "map_of (smap_assign k h hs) = map_of (List.map_filter location_entry [st]) ++ map_of hs"
    by (auto simp: List.map_filter_simps map_add_def fun_eq_iff split: option.splits)
  then show ?thesis
    using assms(3,4) length_smap_assign [OF kh(2), of h] smap_inv_assign [OF assms(3), of k h]
    by (intro exI [of _ "n + 1"] exI [of _ "smap_assign k h hs"]
        exI [of _ "logDebugFile (''Initialized handler: '' @ tokens st ! 2) lg"])
       (simp add: location_loop_entry [OF assms(1,2)] kh log_ops)
next
  case False
  then have "map_of hs = map_of (List.map_filter location_entry [st]) ++ map_of hs"
    by (cases "location_entry st") (auto simp: List.map_filter_simps map_add_def fun_eq_iff split: option.splits)
  moreover have "location_loop (st # sts) n hs lg = location_loop sts n hs lg"
    using False by (cases "location_entry st") (auto simp: location_loop_entry [OF assms(1,2)])
  ultimately show ?thesis using assms(3,4) by metis
qed

lemma map_filter_Cons_append: "List.map_filter f (x # xs) = List.map_filter f [x] @ List.map_filter f xs"
  by (simp add: List.map_filter_simps split: option.split)

lemma location_loop_wf:
  assumes "list_all wf_statement sts" and "\<forall>st\<in>set sts. is_location st \<longrightarrow> location_ok st" and "smap_inv hs" and "lg \<noteq> None"
  shows "\<exists>n' hs' lg'. location_loop sts n hs lg = Inr (n', hs', lg') \<and> smap_inv hs' \<and> lg' \<noteq> None \<and>
    map_of hs' = map_of (List.map_filter location_entry sts) ++ map_of hs \<and> n' + length hs = n + length hs' \<and>
    (logger_inv lg \<longrightarrow> logger_inv lg')"
  using assms
proof (induction sts arbitrary: n hs lg)
  case Nil
  then show ?case by (simp add: List.map_filter_def)
next
  case (Cons st sts)
  then have wf: "wf_statement st" "is_location st \<longrightarrow> location_ok st" "list_all wf_statement sts"
      "\<forall>st\<in>set sts. is_location st \<longrightarrow> location_ok st"
    by auto
  obtain n1 hs1 lg1 where one: "location_loop (st # sts) n hs lg = location_loop sts n1 hs1 lg1" "smap_inv hs1" "lg1 \<noteq> None"
      "map_of hs1 = map_of (List.map_filter location_entry [st]) ++ map_of hs" "n1 + length hs = n + length hs1"
      "logger_inv lg \<longrightarrow> logger_inv lg1"
    using location_loop_step [OF wf(1,2) Cons.prems(3,4)] by blast
  obtain n' hs' lg' where rest: "location_loop sts n1 hs1 lg1 = Inr (n', hs', lg')" "smap_inv hs'" "lg' \<noteq> None"
      "map_of hs' = map_of (List.map_filter location_entry sts) ++ map_of hs1" "n' + length hs1 = n1 + length hs'"
      "logger_inv lg1 \<longrightarrow> logger_inv lg'"
    using Cons.IH [OF wf(3,4) one(2,3)] by blast
  have "map_of hs' = map_of (List.map_filter location_entry (st # sts)) ++ map_of hs"
    by (simp only: rest(4) one(4) map_filter_Cons_append [of _ st sts] map_of_append map_add_assoc)
  moreover have "n' + length hs = n + length hs'" using one(5) rest(5) by simp
  ultimately show ?case using one rest by auto
qed

lemma location_loop_bad:
  assumes "list_all wf_statement sts" and "\<exists>st\<in>set sts. is_location st \<and> \<not> location_ok st"
  shows "\<exists>f. location_loop sts n hs lg = Inl f"
  using assms
proof (induction sts arbitrary: n hs lg)
  case (Cons st sts)
  obtain ts child where st: "st = NginxConfigStatement ts child" by (cases st)
  show ?case
  proof (cases "is_location st \<and> \<not> location_ok st")
    case True
    then show ?thesis by (auto simp: st is_location_def location_ok_def split: option.splits)
  next
    case False
    with Cons.prems have "list_all wf_statement sts" "\<exists>st\<in>set sts. is_location st \<and> \<not> location_ok st" by auto
    then have ih: "\<exists>f. location_loop sts n hs lg = Inl f" for n hs lg by (rule Cons.IH)
    show ?thesis
    proof (cases "is_location st")
      case True
      then obtain block where "child = Some block" "3 \<le> length ts" "wf_config block"
        using False Cons.prems(1) by (auto simp: st location_ok_def)
      then show ?thesis
        using True ih by (auto simp: st is_location_def registerPath_wf split: option.split)
    next
      case False
      then show ?thesis using ih Cons.prems(1) by (auto simp: st is_location_def)
    qed
  qed
qed simp

lemma server_loop_find:
  assumes "list_all wf_statement sts"
  shows "server_loop sts n hs lg =
    (case find (\<lambda>st. tokens st = [''server'']) sts of
       None \<Rightarrow> Inr (n, hs, lg)
     | Some st \<Rightarrow> (case child_block st of
                     None \<Rightarrow> Inl Null_Dereference
                   | Some block \<Rightarrow> location_loop (statements block) n hs lg))"
  using assms
proof (induction sts n hs lg rule: server_loop.induct)
  case (2 ts child sts n hs lg)
  then show ?case by (cases ts) auto
qed simp

definition registration_ok :: "NginxConfig \<Rightarrow> bool" where
  "registration_ok config \<longleftrightarrow>
     (\<forall>st. find (\<lambda>st. tokens st = [''server'']) (statements config) = Some st \<longrightarrow> child_block st \<noteq> None) \<and>
     list_all location_ok (locations config)"

definition registered :: "NginxConfig \<Rightarrow> string \<rightharpoonup> RequestHandler" where
  "registered config = map_of (List.map_filter location_entry (locations config))"

lemma map_filter_locations: "List.map_filter location_entry (filter is_location sts) = List.map_filter location_entry sts"
proof (induction sts)
  case (Cons st sts)
  have "\<not> is_location st \<Longrightarrow> location_entry st = None" by (simp add: location_entry_def)
  with Cons show ?case by (auto simp: List.map_filter_simps split: option.split)
qed simp

lemma find_wf:
  assumes "wf_config config" and "find P (statements config) = Some (NginxConfigStatement ts (Some block))"
  shows "wf_config block"
proof -
  have "NginxConfigStatement ts (Some block) \<in> set (statements config)"
    using assms(2) by (metis find_Some_iff nth_mem)
  then have "wf_statement (NginxConfigStatement ts (Some block))"
    using assms(1) by (cases config) (auto simp: list_all_iff simp del: wf_statement.simps)
  then show ?thesis by simp
qed

lemma initRequestHandlers_ok:
  assumes "wf_config config" and "registration_ok config"
  shows "\<exists>n hs lg'. initRequestHandlers config [] lg = Inr (n, hs, lg') \<and> smap_inv hs \<and> lg' \<noteq> None \<and>
    map_of hs = [''/'' \<mapsto> RequestHandler404] ++ registered config \<and> n = card (dom (registered config)) \<and>
    (logger_inv lg \<longrightarrow> logger_inv lg')"
proof -
  have wf: "list_all wf_statement (statements config)" using assms(1) by (cases config) simp
  obtain n hs lg' where loop: "server_loop (statements config) 0 [] (getLogger lg) = Inr (n, hs, lg')" "smap_inv hs" "lg' \<noteq> None"
      "map_of hs = registered config" "n = length hs" "logger_inv lg \<longrightarrow> logger_inv lg'"
  proof (cases "find (\<lambda>st. tokens st = [''server'']) (statements config)")
    case None
    then show thesis
      by (intro that [of 0 "[]" "getLogger lg"])
         (simp_all add: server_loop_find [OF wf] registered_def locations_def List.map_filter_simps)
  next
    case (Some st)
    then obtain ts block where st: "st = NginxConfigStatement ts (Some block)"
      using assms(2) by (cases st) (auto simp: registration_ok_def)
    have "list_all wf_statement (statements block)"
      using find_wf [OF assms(1) Some [unfolded st]] by (cases block) simp
    moreover have locs: "locations config = filter is_location (statements block)" using Some st by (simp add: locations_def)
    then have "\<forall>st\<in>set (statements block). is_location st \<longrightarrow> location_ok st"
      using assms(2) by (simp add: registration_ok_def list_all_iff)
    ultimately obtain n hs lg' where "location_loop (statements block) 0 [] (getLogger lg) = Inr (n, hs, lg')" "smap_inv hs"
        "lg' \<noteq> None" "map_of hs = registered config" "n = length hs" "logger_inv (getLogger lg) \<longrightarrow> logger_inv lg'"
      using location_loop_wf [of "statements block" "[]" "getLogger lg" 0]
      by (auto simp: registered_def locs map_filter_locations)
    then show thesis using Some st by (intro that [of n hs lg']) (simp_all add: server_loop_find [OF wf])
  qed
  have "n = card (dom (registered config))"
    using smap_inv_distinct [OF loop(2)] loop(4,5)
    by (metis distinct_card dom_map_of_conv_image_fst length_map list.set_map)
  moreover have "map_of (if map_of hs ''/'' = None then smap_assign ''/'' RequestHandler404 hs else hs) =
      [''/'' \<mapsto> RequestHandler404] ++ registered config"
    using loop(4) by (auto simp: map_add_def fun_eq_iff split: option.splits)
  ultimately show ?thesis
    using loop by (auto simp: initRequestHandlers_def)
qed

lemma initRequestHandlers_bad:
  assumes "wf_config config" and "\<not> registration_ok config"
  shows "\<exists>f. initRequestHandlers config hs lg = Inl f"
proof -
  have wf: "list_all wf_statement (statements config)" using assms(1) by (cases config) simp
  have "\<exists>f. server_loop (statements config) 0 hs (getLogger lg) = Inl f"
  proof (cases "find (\<lambda>st. tokens st = [''server'']) (statements config)")
    case None
    then show ?thesis using assms(2) by (simp add: registration_ok_def locations_def)
  next
    case (Some st)
    obtain ts child where st: "st = NginxConfigStatement ts child" by (cases st)
    show ?thesis
    proof (cases child)
      case None
      then show ?thesis using Some st by (simp add: server_loop_find [OF wf])
    next
      case block: (Some block)
      have "list_all wf_statement (statements block)"
        using find_wf [OF assms(1) Some [unfolded st block]] by (cases block) simp
      moreover have "\<exists>st\<in>set (statements block). is_location st \<and> \<not> location_ok st"
        using assms(2) Some st block by (auto simp: registration_ok_def locations_def list_all_iff)
      ultimately show ?thesis
        using Some st block location_loop_bad by (simp add: server_loop_find [OF wf])
    qed
  qed
  then show ?thesis by (auto simp: initRequestHandlers_def)
qed

lemma RequestHandlerDispatcher_Inr:
  assumes "wf_config config" and "RequestHandlerDispatcher config lg = Inr (hs, lg')"
  shows "smap_inv hs" and "map_of hs = [''/'' \<mapsto> RequestHandler404] ++ registered config"
proof -
  have "registration_ok config"
    using initRequestHandlers_bad [OF assms(1), of "[]" lg] assms(2)
    by (cases "registration_ok config") (auto simp: RequestHandlerDispatcher_def)
  with initRequestHandlers_ok [OF assms(1), of lg] assms(2)
  show "smap_inv hs" "map_of hs = [''/'' \<mapsto> RequestHandler404] ++ registered config"
    by (auto simp: RequestHandlerDispatcher_def)
qed

section \<open>Properties\<close>

text \<open>
  C20. Construction of the dispatcher from a parsed configuration: it succeeds exactly when the
  server block is a block and every location in it has a path, a handler type and a block;
  otherwise it indexes out of range or dereferences null. On success the table holds exactly the
  first registration of every path with a known handler type, with trailing slashes removed and
  the last root statement of the block, plus a 404 handler at \<^verbatim>\<open>/\<close> unless one is
  configured; the count returned is the number of paths registered.
\<close>

theorem dispatcher_registers:
  assumes "wf_config config"
  shows "if registration_ok config
    then \<exists>n hs lg'. initRequestHandlers config [] lg = Inr (n, hs, lg') \<and> smap_inv hs \<and>
      map_of hs = [''/'' \<mapsto> RequestHandler404] ++ registered config \<and> n = card (dom (registered config))
    else \<exists>f. initRequestHandlers config [] lg = Inl f"
  using initRequestHandlers_ok [OF assms, of lg] initRequestHandlers_bad [OF assms, of "[]" lg] by auto

lemma example_config3_wf: "wf_config example_config3"
  by (simp add: example_config3_def)

lemma example_config3_registration: "registration_ok example_config3"
  by (simp add: registration_ok_def example_config3_def locations_def is_location_def location_ok_def)

definition example_handlers :: handlers where
  "example_handlers =
     [(''/'', RequestHandler404), (''/api'', RequestHandlerAPI ''./api_storage/'' ''/api''), (''/echo'', RequestHandlerEcho),
      (''/health'', RequestHandlerHealth), (''/sleep'', RequestHandlerSleep),
      (''/static'', RequestHandlerStatic ''/data'' ''/static'')]"

lemma example_config3_dispatcher: "RequestHandlerDispatcher example_config3 None =
  Inr (example_handlers, Some \<lparr>file_sinks = 1, console_sinks = 1, records =
   [(sev_debug, ''Debug: Initialized handler: StaticHandler''), (sev_debug, ''Debug: Initialized handler: EchoHandler''),
    (sev_debug, ''Debug: Initialized handler: APIHandler''), (sev_debug, ''Debug: Initialized handler: HealthHandler''),
    (sev_debug, ''Debug: Initialized handler: SleepHandler'')]\<rparr>)"
  by code_simp

theorem dispatcher_registers_witness:
  "\<exists>n hs lg'. initRequestHandlers example_config3 [] None = Inr (n, hs, lg') \<and> smap_inv hs \<and>
     map_of hs = [''/'' \<mapsto> RequestHandler404] ++ registered example_config3 \<and> n = card (dom (registered example_config3))"
  using dispatcher_registers [OF example_config3_wf, of None] example_config3_registration by simp

text \<open>
  C15. A target reaches the handler with the longest registered path that is a prefix of the
  target without its trailing slashes. Prefixes are compared as strings, not by path segments:
  every target that merely begins with a registered path matches it.
\<close>

theorem dispatcher_longest_prefix:
  assumes "wf_config config" and "RequestHandlerDispatcher config lg = Inr (hs, lg')"
  shows "getRequestHandler hs target = Some h \<longleftrightarrow>
    (\<exists>k. ([''/'' \<mapsto> RequestHandler404] ++ registered config) k = Some h \<and> k \<noteq> [] \<and> prefix k (strip_trailing_slashes target) \<and>
      (\<forall>k'\<in>insert ''/'' (dom (registered config)). prefix k' (strip_trailing_slashes target) \<longrightarrow> length k' \<le> length k))"
proof -
  note hs = RequestHandlerDispatcher_Inr [OF assms]
  have "fst ` set hs = insert ''/'' (dom (registered config))"
    using arg_cong [OF hs(2), of dom] by (simp add: dom_map_of_conv_image_fst)
  then show ?thesis
    using getRequestHandler_iff [OF hs(1), of target h] hs(2) by (simp add: longest_match_def)
qed

theorem dispatcher_longest_prefix_witness:
  "\<exists>k. ([''/'' \<mapsto> RequestHandler404] ++ registered example_config3) k = Some (RequestHandlerStatic ''/data'' ''/static'') \<and> k \<noteq> [] \<and>
     prefix k (strip_trailing_slashes ''/staticfile'')"
proof -
  have "getRequestHandler example_handlers ''/staticfile'' = Some (RequestHandlerStatic ''/data'' ''/static'')"
    by code_simp
  from dispatcher_longest_prefix [OF example_config3_wf example_config3_dispatcher, THEN iffD1, OF this]
  show ?thesis by (elim exE conjE) (intro exI conjI)
qed

text \<open>
  Once constructed, the dispatcher finds a handler for every target that starts with a slash;
  only targets in another form, such as an absolute URI, can end in the null handler.
\<close>

lemma dispatcher_never_null:
  assumes "wf_config config" and "RequestHandlerDispatcher config lg = Inr (hs, lg')"
  shows "getRequestHandler hs (CHR ''/'' # t) \<noteq> None"
proof -
  have "''/'' \<in> dom (map_of hs)" using RequestHandlerDispatcher_Inr [OF assms] by (simp add: domIff map_add_def split: option.split)
  then have root: "''/'' \<in> fst ` set hs" by (simp add: dom_map_of_conv_image_fst)
  have "strip_trailing_slashes (CHR ''/'' # t) \<noteq> []" by (simp add: strip_trailing_slashes_nonempty)
  then obtain c u where cu: "strip_trailing_slashes (CHR ''/'' # t) = c # u" by (meson list.exhaust)
  then have "c = CHR ''/''" using strip_trailing_slashes_prefix [of "CHR ''/'' # t"] by simp
  with cu root show ?thesis using getRequestHandler_None_iff [of hs "CHR ''/'' # t"] by force
qed

end
