(* ===== verification/Handler_Contract.thy ===== *)
theory Handler_Contract
  imports Dispatcher
begin

text \<open>
  What the session may rely on when it calls \<^verbatim>\<open>handleRequest\<close> of whatever object the
  dispatcher returned: the contract of the abstract class \<^verbatim>\<open>RequestHandler\<close> as a locale,
  its interpretation on the six handlers, and their effects on file system and clock.
\<close>

section \<open>The contract\<close>

text \<open>
  A message a client can take apart: its Content-Length is the length of its body. A message that
  may be sent is framed, and carries a challenge when it refuses credentials.
\<close>

definition framed :: "boost \<Rightarrow> response \<Rightarrow> bool" where
  "framed B r \<longleftrightarrow> res_find B field_content_length r = Some (nat_to_string (length (res_body r)))"

definition sendable :: "boost \<Rightarrow> response \<Rightarrow> bool" where
  "sendable B r \<longleftrightarrow> framed B r \<and> (res_result r = status_unauthorized \<longrightarrow> res_find B field_www_authenticate r \<noteq> None)"

locale request_handler =
  fixes B :: boost and handle :: "request \<Rightarrow> response \<Rightarrow> world \<Rightarrow> (response \<times> world) res"
  assumes answer_framed: "handle req res w = Inr (res', w') \<Longrightarrow> framed B res'"
    and answer_version: "handle req res w = Inr (res', w') \<Longrightarrow> res_version res' = req_version req"
    and answer_typed: "handle req res w = Inr (res', w') \<Longrightarrow> res_find B field_content_type res' \<noteq> None"
    and answer_status:
      "handle req res w = Inr (res', w') \<Longrightarrow> res_result res' \<in> {status_ok, status_bad_request, status_not_found}"
    and time_forward: "handle req res w = Inr (res', w') \<Longrightarrow> clock w \<le> clock w'"
    and get_keeps_disk: "handle req res w = Inr (res', w') \<Longrightarrow> req_method req = verb_get \<Longrightarrow> disk w' = disk w"
begin

lemma answer_sendable: "handle req res w = Inr (res', w') \<Longrightarrow> sendable B res'"
  using answer_framed answer_status by (fastforce simp: sendable_def)

text \<open>What every caller sees of a call that returns.\<close>

lemma answer_contract:
  assumes "handle req res w = Inr (res', w')"
  shows "sendable B res' \<and> res_version res' = req_version req \<and> res_find B field_content_type res' \<noteq> None \<and>
    status_code (res_result res') \<in> {200, 400, 404} \<and> clock w \<le> clock w' \<and> (req_method req = verb_get \<longrightarrow> disk w' = disk w)"
  using answer_sendable [OF assms] answer_version [OF assms] answer_typed [OF assms] answer_status [OF assms]
    time_forward [OF assms] get_keeps_disk [OF assms] by auto

end

section \<open>The six handlers\<close>

text \<open>The responses of the handlers, field by field; \<open>handler_defs\<close> unfolds them.\<close>

lemmas handler_defs =
  RequestHandler404_handleRequest_def RequestHandlerEcho_handleRequest_def RequestHandlerHealth_handleRequest_def
  RequestHandlerSleep_handleRequest_def RequestHandlerStatic_handleRequest_def static_not_found_def sleep_for_def

lemma handleRequest_answer:
  assumes B: "boost_laws B" and h: "handleRequest B h req res w = Inr (res', w')"
  shows "framed B res' \<and> res_version res' = req_version req \<and> res_find B field_content_type res' \<noteq> None \<and>
    res_result res' \<in> {status_ok, status_bad_request, status_not_found}"
proof -
  note [simp] = boost_laws.res_find_set [OF B] boost_laws.res_find_prepare_length [OF B] boost_laws.res_find_prepare [OF B]
    boost_laws.res_find_content_length [OF B]
  show ?thesis
  proof (cases h)
    case (RequestHandlerAPI root pfx)
    then obtain fs where "RequestHandlerAPI_handleRequest B (CRUDHandler B root) pfx req res (disk w) = Inr (res', fs)"
      using h by (auto simp: bind_res_eq_Inr_iff)
    from API_response_shape [OF B this] show ?thesis by (auto simp: framed_def)
  next
    case (RequestHandlerStatic root pfx)
    then have "res' = RequestHandlerStatic_handleRequest B root pfx req res (disk w)" using h by auto
    then show ?thesis by (simp add: handler_defs framed_def Let_def split: option.split)
  qed (use h in \<open>auto simp: handler_defs framed_def Let_def\<close>)
qed

lemma handleRequest_effects:
  assumes h: "handleRequest B h req res w = Inr (res', w')"
  shows "clock w' = clock w + (if h = RequestHandlerSleep then 5000000000 else 0) \<and>
    (disk w' = disk w \<or> (\<exists>root pfx. h = RequestHandlerAPI root pfx) \<and> req_method req \<in> {verb_post, verb_put, verb_delete})"
proof (cases h)
  case (RequestHandlerAPI root pfx)
  then obtain fs where api: "RequestHandlerAPI_handleRequest B (CRUDHandler B root) pfx req res (disk w) = Inr (res', fs)" "w' = w\<lparr>disk := fs\<rparr>"
    using h by (auto simp: bind_res_eq_Inr_iff)
  have "fs = disk w" if "req_method req = verb_get \<or> req_method req = verb_other"
    using api(1) that by (auto simp: api_defs Let_def bind_res_eq_Inr_iff split: option.splits if_splits)
  then show ?thesis using RequestHandlerAPI api(2) by (cases "req_method req") auto
qed (use h in \<open>auto simp: handler_defs Let_def\<close>)

lemma handleRequest_contract: "boost_laws B \<Longrightarrow> request_handler B (handleRequest B h)"
proof unfold_locales
  fix req res w res' w'
  assume B: "boost_laws B" and h: "handleRequest B h req res w = Inr (res', w')"
  show "framed B res'" "res_version res' = req_version req" "res_find B field_content_type res' \<noteq> None"
      "res_result res' \<in> {status_ok, status_bad_request, status_not_found}"
    using handleRequest_answer [OF B h] by auto
  show "disk w' = disk w" if "req_method req = verb_get"
    using handleRequest_effects [OF h] that by auto
  show "clock w \<le> clock w'" using handleRequest_effects [OF h] by auto
qed

interpretation handler: request_handler "ref_boost put" "handleRequest (ref_boost put) h" for put h
  by (rule handleRequest_contract [OF ref.boost_laws_axioms])





lemma handleRequest_wf:
  assumes "boost_laws B" and "safe_cwd (disk w)" and "handleRequest B h req res w = Inr (res', w')"
  shows "safe_cwd (disk w')"
proof (cases "\<exists>root pfx. h = RequestHandlerAPI root pfx")
  case True
  then show ?thesis using assms(3) api_handler_wf [OF assms(1,2)] by (auto simp: bind_res_eq_Inr_iff)
next
  case False
  then show ?thesis using handleRequest_effects [OF assms(3)] assms(2) by auto
qed

end
