(* ===== verification/Session.thy ===== *)
theory Session
  imports Base64 Handler_Contract
begin

text \<open>
  \<^verbatim>\<open>session\<close> of \<^verbatim>\<open>src/session.{h,cc}\<close>: authentication, expiry, the two
  completion handlers and the asynchronous operations they start. Network input arrives as the
  argument of the read completion; the bytes are parsed by Beast (the parameter
  \<open>parser_put\<close>).
\<close>

section \<open>State\<close>

text \<open>
  An operation handed to Asio and not completed yet. \<^verbatim>\<open>async_write\<close> refers to
  \<^verbatim>\<open>response_\<close> and does not copy it, so the operation carries no message.
\<close>

datatype async_op = Async_Read | Async_Write

record session =
  buffer :: string
  socket_shutdown :: bool
  credentials :: credentials
  dispatcher :: handlers
  response :: response
  last_auth_time :: int
  auth_time :: "16 word"
  pending :: "async_op list"

text \<open>A session in its surroundings: file system and clock, and the logger all parts share.\<close>

record connection =
  ses :: session
  env :: world
  log :: logger_ptr

definition log_with :: "(logger_ptr \<Rightarrow> logger_ptr) \<Rightarrow> connection \<Rightarrow> connection" where
  "log_with f c = c\<lparr>log := f (log c)\<rparr>"

definition set_response :: "response \<Rightarrow> connection \<Rightarrow> connection" where
  "set_response r c = c\<lparr>ses := (ses c)\<lparr>response := r\<rparr>\<rparr>"

definition set_last_auth_time :: "int \<Rightarrow> connection \<Rightarrow> connection" where
  "set_last_auth_time t c = c\<lparr>ses := (ses c)\<lparr>last_auth_time := t\<rparr>\<rparr>"

definition start_op :: "async_op \<Rightarrow> connection \<Rightarrow> connection" where
  "start_op x c = c\<lparr>ses := (ses c)\<lparr>pending := pending (ses c) @ [x]\<rparr>\<rparr>"

section \<open>Methods\<close>

text \<open>
  The constructor reads the clock: \<^verbatim>\<open>last_auth_time_\<close> starts at construction, not at
  the first request. \<^verbatim>\<open>response_\<close> is default-constructed.
\<close>

definition new_session :: "handlers \<Rightarrow> credentials \<Rightarrow> 16 word \<Rightarrow> world \<Rightarrow> logger_ptr \<Rightarrow> session \<times> logger_ptr" where
  "new_session disp creds at w lg =
     (\<lparr>buffer = [], socket_shutdown = False, credentials = creds, dispatcher = disp, response = make_response status_ok 11,
       last_auth_time = clock w, auth_time = at, pending = []\<rparr>, getLogger lg)"

definition handle_read :: "connection \<Rightarrow> connection" where
  "handle_read c =
     (let c = start_op Async_Read c; c = log_with getLogger c
      in log_with (logDebugFile ''Waiting for data from client'') c)"

definition handle_write :: "connection \<Rightarrow> connection" where
  "handle_write c =
     (let c = start_op Async_Write c; c = log_with getLogger c
      in log_with (logDebugFile ''Writing response to client'') c)"

definition session_start :: "connection \<Rightarrow> connection" where
  "session_start c = handle_read c"

definition authenticate :: "string \<Rightarrow> connection \<Rightarrow> bool \<times> connection" where
  "authenticate auth_header c =
     (let pfx = ''Basic '' in
      if take (length pfx) auth_header \<noteq> pfx then (False, c)
      else
        let encoded = drop (length pfx) auth_header;
            decoded = base64_decode encoded
        in case find_char CHR '':'' decoded of
             None \<Rightarrow> (False, c)
           | Some delimiter_pos \<Rightarrow>
               (let username = take delimiter_pos decoded;
                    password = drop (delimiter_pos + 1) decoded
                in if credentials (ses c) username = Some password
                   then (True, set_last_auth_time (clock (env c)) c)
                   else (False, c)))"

text \<open>\<^verbatim>\<open>duration_cast<seconds>\<close> truncates towards zero.\<close>

definition duration_seconds :: "int \<Rightarrow> int" where
  "duration_seconds ns = (if ns \<ge> 0 then ns div 1000000000 else - ((- ns) div 1000000000))"

definition is_session_expired :: "connection \<Rightarrow> bool \<times> connection" where
  "is_session_expired c =
     (let now = clock (env c);
          c = log_with getLogger c;
          expired = duration_seconds (now - last_auth_time (ses c)) > sint (auth_time (ses c))
      in if expired then
           (let c = log_with getLogger c;
                c = log_with (logDebugFile ''Session expired, starting new session...'') c;
                c = set_last_auth_time now c
            in (expired, handle_read c))
         else (expired, c))"

definition www_authenticate_value :: string where
  "www_authenticate_value = ''Basic realm='' @ [CHR 0x22] @ ''User Visible Realm'' @ [CHR 0x22]"

definition unauthorized_response :: "boost \<Rightarrow> response" where
  "unauthorized_response B =
     (let r = make_response status_unauthorized 11;
          r = res_set B field_server ''Beast'' r;
          r = res_set B field_content_type ''text/html'' r;
          r = res_set B field_www_authenticate www_authenticate_value r;
          r = r\<lparr>res_body := ''Unauthorized''\<rparr>
      in prepare_payload B r)"

definition send_unauthorized_response :: "boost \<Rightarrow> connection \<Rightarrow> connection" where
  "send_unauthorized_response B c =
     (let c = log_with getLogger c;
          c = log_with (logDebugFile ''Sending 401 Unauthorized response'') c;
          c = set_response (unauthorized_response B) c;
          c = log_with (logResponse (''Unauthorized '' @ nat_to_string (status_code (res_result (response (ses c)))))) c
      in handle_write c)"

text \<open>A response the session builds itself: status, version 11, a text body.\<close>

definition plain_response :: "boost \<Rightarrow> status \<Rightarrow> string \<Rightarrow> response" where
  "plain_response B st txt = prepare_payload B ((make_response st 11)\<lparr>res_body := txt\<rparr>)"

text \<open>\<^verbatim>\<open>request[field]\<close>: the value, or the empty string.\<close>

definition req_field :: "boost \<Rightarrow> field \<Rightarrow> request \<Rightarrow> string" where
  "req_field B f req = (case fields_find B f (req_fields req) of None \<Rightarrow> [] | Some v \<Rightarrow> v)"

text \<open>
  The part of the read callback that answers an authenticated request: a null handler gives 404,
  otherwise the handler fills \<^verbatim>\<open>response_\<close>. A fault of the handler ends the process.
\<close>

definition dispatch_request :: "boost \<Rightarrow> request \<Rightarrow> connection \<Rightarrow> (int option \<times> connection) res" where
  "dispatch_request B request c =
     (let target_string = req_target request;
          handler = getRequestHandler (dispatcher (ses c)) target_string
      in bind_res
           (case handler of
              None \<Rightarrow>
                (let c = log_with (logErrorFile (''No handler found for URI: '' @ target_string)) c
                 in Inr (''Handler not found'', set_response (plain_response B status_not_found ''Not Found'') c))
            | Some h \<Rightarrow>
                bind_res (handleRequest B h request (response (ses c)) (env c)) (\<lambda>(r, w).
                Inr (getName h, (set_response r c)\<lparr>env := w\<rparr>)))
           (\<lambda>(handlerTag, c).
             let code = nat_to_string (status_code (res_result (response (ses c))));
                 c = log_with (logDebugFile ''Sending a response message to client...'') c;
                 c = log_with (logDebugFile (''Status Code: '' @ code)) c;
                 c = log_with (logResponse (handlerTag @ '' '' @ code)) c
             in Inr (Some 0, handle_write c)))"

text \<open>The part that runs on a complete request.\<close>

definition process_request :: "boost \<Rightarrow> request \<Rightarrow> connection \<Rightarrow> (int option \<times> connection) res" where
  "process_request B request c =
     (let c = log_with (logTraceHTTPrequest request) c;
          c = (case fields_find B field_authorization (req_fields request) of
                 Some _ \<Rightarrow> log_with (logDebugFile (''Authorization header is set: '' @ req_field B field_authorization request)) c
               | None \<Rightarrow> log_with (logDebugFile ''Authorization header is not set'') c);
          (expired, c) = is_session_expired c
      in if expired then
           (let request = request\<lparr>req_fields := fields_set B field_authorization [] (req_fields request)\<rparr>;
                c = log_with (logDebugFile (''Authorization header is set (after removing): '' @
                      req_field B field_authorization request)) c;
                c = log_with (logDebugFile ''Authorization header removed due to expired session'') c
            in Inr (Some 1, send_unauthorized_response B c))
         else
           (case fields_find B field_authorization (req_fields request) of
              None \<Rightarrow> Inr (Some 1, send_unauthorized_response B c)
            | Some auth_header \<Rightarrow>
                (let (ok, c) = authenticate auth_header c
                 in if \<not> ok then Inr (Some 1, send_unauthorized_response B c)
                    else dispatch_request B request c)))"

text \<open>
  The completion handler of a read: an error message, or the bytes received. The result is the
  return value; \<open>None\<close> when control runs off the end of the function without a
  \<^verbatim>\<open>return\<close>.
\<close>

definition handle_read_callback :: "boost \<Rightarrow> string + string \<Rightarrow> connection \<Rightarrow> (int option \<times> connection) res" where
  "handle_read_callback B completion c =
     (let c = log_with getLogger c in
      case completion of
        Inr received \<Rightarrow>
          (let c = c\<lparr>ses := (ses c)\<lparr>buffer := buffer (ses c) @ received\<rparr>\<rparr>
           in case parser_put B (buffer (ses c)) of
                Put_error msg \<Rightarrow>
                  (let c = log_with (logErrorFile (''Error parsing request: '' @ msg)) c;
                       c = set_response (plain_response B status_bad_request ''Bad request'') c
                   in Inr (Some 1, handle_write c))
              | Put_done request \<Rightarrow> process_request B request c
              | Put_more \<Rightarrow> Inr (None, handle_read c)
              | Put_throws msg \<Rightarrow>
                  (let c = log_with (logErrorFile ''Exception caught in handle_read_callback'') c;
                       c = set_response (plain_response B status_internal_server_error ''Internal Server Error'') c
                   in Inr (Some 1, handle_write c)))
      | Inl message \<Rightarrow> Inr (Some 1, log_with (logErrorFile (''Read error: '' @ message)) c))"

definition handle_write_callback :: "string option \<Rightarrow> connection \<Rightarrow> int \<times> connection" where
  "handle_write_callback error c =
     (let c = log_with getLogger c in
      case error of
        None \<Rightarrow>
          (let c = c\<lparr>ses := (ses c)\<lparr>socket_shutdown := True\<rparr>\<rparr>
           in (1, log_with (logDebugFile ''Session Complete'') c))
      | Some message \<Rightarrow>
          (0, log_with (logErrorFile (''Error passed to handle_write_callback: '' @ message)) c))"

section \<open>State after each method\<close>

lemma log_with_simps [simp]: "ses (log_with f c) = ses c" "env (log_with f c) = env c" "log (log_with f c) = f (log c)"
  by (simp_all add: log_with_def)

lemma set_response_simps [simp]:
  "ses (set_response r c) = (ses c)\<lparr>response := r\<rparr>" "env (set_response r c) = env c" "log (set_response r c) = log c"
  by (simp_all add: set_response_def)

lemma set_last_auth_time_simps [simp]:
  "ses (set_last_auth_time t c) = (ses c)\<lparr>last_auth_time := t\<rparr>" "env (set_last_auth_time t c) = env c"
  "log (set_last_auth_time t c) = log c"
  by (simp_all add: set_last_auth_time_def)

lemma start_op_simps [simp]:
  "ses (start_op x c) = (ses c)\<lparr>pending := pending (ses c) @ [x]\<rparr>" "env (start_op x c) = env c" "log (start_op x c) = log c"
  by (simp_all add: start_op_def)

lemma handle_rw_simps [simp]:
  "ses (handle_read c) = (ses c)\<lparr>pending := pending (ses c) @ [Async_Read]\<rparr>" "env (handle_read c) = env c"
  "ses (handle_write c) = (ses c)\<lparr>pending := pending (ses c) @ [Async_Write]\<rparr>" "env (handle_write c) = env c"
  by (simp_all add: handle_read_def handle_write_def Let_def)

lemma send_unauthorized_simps [simp]:
  "ses (send_unauthorized_response B c) =
     (ses c)\<lparr>response := unauthorized_response B, pending := pending (ses c) @ [Async_Write]\<rparr>"
  "env (send_unauthorized_response B c) = env c"
  by (simp_all add: send_unauthorized_response_def Let_def)

lemma unauthorized_status [simp]: "res_result (unauthorized_response B) = status_unauthorized"
  by (simp add: unauthorized_response_def Let_def make_response_def)

lemma plain_response_simps [simp]: "res_result (plain_response B st txt) = st" "res_body (plain_response B st txt) = txt"
  by (simp_all add: plain_response_def make_response_def)

definition expired_at :: "session \<Rightarrow> int \<Rightarrow> bool" where
  "expired_at s now \<longleftrightarrow> duration_seconds (now - last_auth_time s) > sint (auth_time s)"

lemma is_session_expired_simps [simp]:
  "fst (is_session_expired c) = expired_at (ses c) (clock (env c))"
  "env (snd (is_session_expired c)) = env c"
  "ses (snd (is_session_expired c)) =
     (if expired_at (ses c) (clock (env c))
      then (ses c)\<lparr>last_auth_time := clock (env c), pending := pending (ses c) @ [Async_Read]\<rparr> else ses c)"
  by (simp_all add: is_session_expired_def Let_def expired_at_def)

section \<open>Authentication\<close>

text \<open>
  A header that proves a credential: \<^verbatim>\<open>Basic\<close> and text whose decoding is a user
  name without a colon, a colon and the password of that user.
\<close>

definition valid_header :: "credentials \<Rightarrow> string \<Rightarrow> bool" where
  "valid_header creds hdr \<longleftrightarrow>
     (\<exists>e u p. hdr = ''Basic '' @ e \<and> base64_decode e = u @ '':'' @ p \<and> CHR '':'' \<notin> set u \<and> creds u = Some p)"

lemma valid_header_Basic:
  "valid_header creds (''Basic '' @ e) \<longleftrightarrow>
     (case find_char CHR '':'' (base64_decode e) of
        None \<Rightarrow> False
      | Some i \<Rightarrow> creds (take i (base64_decode e)) = Some (drop (i + 1) (base64_decode e)))"
proof (cases "find_char CHR '':'' (base64_decode e)")
  case None
  then have "CHR '':'' \<notin> set (base64_decode e)" by simp
  then have "\<not> valid_header creds (''Basic '' @ e)" by (auto simp: valid_header_def)
  then show ?thesis by (simp add: None del: find_char_None_iff)
next
  case (Some i)
  note split = find_char_SomeD [OF Some]
  have "u = take i (base64_decode e) \<and> p = drop (i + 1) (base64_decode e)"
    if "base64_decode e = u @ '':'' @ p" "CHR '':'' \<notin> set u" for u p
  proof -
    have "i = length u" using Some that find_char_append_notin [OF that(2), of p] by simp
    then show ?thesis using that(1) by simp
  qed
  moreover have "base64_decode e = take i (base64_decode e) @ '':'' @ drop (i + 1) (base64_decode e)"
    using split by simp
  ultimately show ?thesis using Some split unfolding valid_header_def by auto
qed

lemma authenticate_eq:
  "authenticate hdr c =
     (if valid_header (credentials (ses c)) hdr then (True, set_last_auth_time (clock (env c)) c) else (False, c))"
proof (cases "take 6 hdr = ''Basic ''")
  case True
  then obtain e where e: "hdr = ''Basic '' @ e" by (metis append_take_drop_id)
  show ?thesis unfolding e
    using valid_header_Basic [of "credentials (ses c)" e]
    by (cases "find_char CHR '':'' (base64_decode e)") (auto simp: authenticate_def Let_def simp del: find_char_None_iff)
next
  case False
  then have "\<not> valid_header (credentials (ses c)) hdr" by (auto simp: valid_header_def)
  with False show ?thesis by (simp add: authenticate_def Let_def eval_nat_numeral)
qed

text \<open>
  C16. \<^verbatim>\<open>authenticate\<close> accepts a header exactly when it is \<^verbatim>\<open>Basic\<close>
  followed by text that decodes to \<open>user:password\<close> of a configured credential, the user name
  ending at the first colon; it records the time then, and changes nothing else in any case.
\<close>

theorem authenticate_iff:
  "authenticate hdr c =
     (if \<exists>e u p. hdr = ''Basic '' @ e \<and> base64_decode e = u @ '':'' @ p \<and> CHR '':'' \<notin> set u \<and> credentials (ses c) u = Some p
      then (True, c\<lparr>ses := (ses c)\<lparr>last_auth_time := clock (env c)\<rparr>\<rparr>) else (False, c))"
  unfolding authenticate_eq valid_header_def by (simp add: set_last_auth_time_def)

lemma valid_header_encoded:
  assumes "creds u = Some p" and "CHR '':'' \<notin> set u"
  shows "valid_header creds (''Basic '' @ base64_encode (u @ '':'' @ p))"
  using assms base64_loop_encode [of "u @ '':'' @ p"]
  by (auto simp: valid_header_def base64_decode_def)

text \<open>
  Every configured user gets in: the header a browser sends for a user and password of the
  credentials is accepted, whatever bytes the password holds, if the user name has no colon.
\<close>

lemma authenticate_accepts_encoded:
  assumes "credentials (ses c) u = Some p" and "CHR '':'' \<notin> set u"
  shows "fst (authenticate (''Basic '' @ base64_encode (u @ '':'' @ p)) c)"
  using valid_header_encoded [of "credentials (ses c)" u p] assms by (simp add: authenticate_eq)

definition sample_world :: world where
  "sample_world = \<lparr>disk = sample_static_fs, clock = 0\<rparr>"

definition sample_connection :: connection where
  "sample_connection =
     \<lparr>ses = fst (new_session example_handlers [''tariq'' \<mapsto> ''123''] 1800 sample_world None), env = sample_world, log = Some new_Logger\<rparr>"

lemma sample_connection_simps [simp]:
  "credentials (ses sample_connection) = [''tariq'' \<mapsto> ''123'']" "dispatcher (ses sample_connection) = example_handlers"
  "env sample_connection = sample_world" "last_auth_time (ses sample_connection) = 0"
  "auth_time (ses sample_connection) = 1800" "pending (ses sample_connection) = []" "buffer (ses sample_connection) = []"
  by (simp_all add: sample_connection_def new_session_def sample_world_def)

section \<open>One request\<close>

lemma process_request_expired:
  assumes "expired_at (ses c) (clock (env c))"
  shows "\<exists>c'. process_request B req c = Inr (Some 1, c') \<and> env c' = env c \<and>
    ses c' = (ses c)\<lparr>last_auth_time := clock (env c), response := unauthorized_response B,
      pending := pending (ses c) @ [Async_Read, Async_Write]\<rparr>"
  using assms by (simp add: process_request_def Let_def case_prod_beta split: option.split)

lemma process_request_rejected:
  assumes "\<not> expired_at (ses c) (clock (env c))"
    and "\<forall>hdr. fields_find B field_authorization (req_fields req) = Some hdr \<longrightarrow> \<not> valid_header (credentials (ses c)) hdr"
  shows "\<exists>c'. process_request B req c = Inr (Some 1, c') \<and> env c' = env c \<and>
    ses c' = (ses c)\<lparr>response := unauthorized_response B, pending := pending (ses c) @ [Async_Write]\<rparr>"
  using assms by (cases "fields_find B field_authorization (req_fields req)")
    (simp_all add: process_request_def Let_def case_prod_beta authenticate_eq)

lemma process_request_accepted:
  assumes "\<not> expired_at (ses c) (clock (env c))"
    and "fields_find B field_authorization (req_fields req) = Some hdr" and "valid_header (credentials (ses c)) hdr"
  shows "\<exists>c1. process_request B req c = dispatch_request B req c1 \<and> env c1 = env c \<and>
    ses c1 = (ses c)\<lparr>last_auth_time := clock (env c)\<rparr>"
proof -
  have "\<exists>c1. process_request B req c = dispatch_request B req (set_last_auth_time (clock (env c)) c1) \<and> env c1 = env c \<and> ses c1 = ses c"
    using assms unfolding process_request_def
    by (simp add: Let_def case_prod_beta authenticate_eq) (rule exI, rule conjI, rule refl, simp)
  then show ?thesis by force
qed

lemma dispatch_request_None:
  assumes "getRequestHandler (dispatcher (ses c)) (req_target req) = None"
  shows "\<exists>c'. dispatch_request B req c = Inr (Some 0, c') \<and> env c' = env c \<and>
    ses c' = (ses c)\<lparr>response := plain_response B status_not_found ''Not Found'', pending := pending (ses c) @ [Async_Write]\<rparr>"
  using assms by (simp add: dispatch_request_def Let_def)

lemma dispatch_request_Some:
  assumes "getRequestHandler (dispatcher (ses c)) (req_target req) = Some h"
  shows "(\<exists>f. handleRequest B h req (response (ses c)) (env c) = Inl f \<and> dispatch_request B req c = Inl f) \<or>
    (\<exists>r w c'. handleRequest B h req (response (ses c)) (env c) = Inr (r, w) \<and> dispatch_request B req c = Inr (Some 0, c') \<and>
       env c' = w \<and> ses c' = (ses c)\<lparr>response := r, pending := pending (ses c) @ [Async_Write]\<rparr>)"
  using assms by (cases "handleRequest B h req (response (ses c)) (env c)")
    (auto simp: dispatch_request_def Let_def)

text \<open>The bytes received so far are a complete request with a valid credential.\<close>

definition authorised :: "boost \<Rightarrow> credentials \<Rightarrow> string \<Rightarrow> bool" where
  "authorised B creds received \<longleftrightarrow>
     (case parser_put B received of
        Put_done req \<Rightarrow>
          (case fields_find B field_authorization (req_fields req) of None \<Rightarrow> False | Some hdr \<Rightarrow> valid_header creds hdr)
      | _ \<Rightarrow> False)"

definition rejection :: "response \<Rightarrow> bool" where
  "rejection r \<longleftrightarrow> res_result r \<in> {status_bad_request, status_unauthorized, status_internal_server_error}"

lemma rejection_code: "rejection r \<longleftrightarrow> status_code (res_result r) \<in> {400, 401, 500}"
  by (cases "res_result r") (simp_all add: rejection_def)

lemma handle_read_callback_received:
  obtains c1 where "env c1 = env c" "ses c1 = (ses c)\<lparr>buffer := buffer (ses c) @ d\<rparr>"
    "handle_read_callback B (Inr d) c =
      (case parser_put B (buffer (ses c) @ d) of
         Put_error msg \<Rightarrow> Inr (Some 1, handle_write (set_response (plain_response B status_bad_request ''Bad request'')
           (log_with (logErrorFile (''Error parsing request: '' @ msg)) c1)))
       | Put_done req \<Rightarrow> process_request B req c1
       | Put_more \<Rightarrow> Inr (None, handle_read c1)
       | Put_throws msg \<Rightarrow> Inr (Some 1, handle_write (set_response (plain_response B status_internal_server_error ''Internal Server Error'')
           (log_with (logErrorFile ''Exception caught in handle_read_callback'') c1))))"
proof (rule that)
  let ?c1 = "(log_with getLogger c)\<lparr>ses := (ses c)\<lparr>buffer := buffer (ses c) @ d\<rparr>\<rparr>"
  show "env ?c1 = env c" "ses ?c1 = (ses c)\<lparr>buffer := buffer (ses c) @ d\<rparr>" by simp_all
  show "handle_read_callback B (Inr d) c =
      (case parser_put B (buffer (ses c) @ d) of
         Put_error msg \<Rightarrow> Inr (Some 1, handle_write (set_response (plain_response B status_bad_request ''Bad request'')
           (log_with (logErrorFile (''Error parsing request: '' @ msg)) ?c1)))
       | Put_done req \<Rightarrow> process_request B req ?c1
       | Put_more \<Rightarrow> Inr (None, handle_read ?c1)
       | Put_throws msg \<Rightarrow> Inr (Some 1, handle_write (set_response (plain_response B status_internal_server_error ''Internal Server Error'')
           (log_with (logErrorFile ''Exception caught in handle_read_callback'') ?c1))))"
    by (cases "parser_put B (buffer (ses c) @ d)") (simp_all add: handle_read_callback_def Let_def)
qed

lemma expired_at_buffer [simp]: "expired_at (s\<lparr>buffer := b\<rparr>) t = expired_at s t"
  by (simp add: expired_at_def)

text \<open>The cases of a read that delivers bytes without authorisation or to an expired session.\<close>

lemma read_unauthorised:
  assumes "\<not> authorised B (credentials (ses c)) (buffer (ses c) @ d) \<or> expired_at (ses c) (clock (env c))"
  shows "\<exists>ret c'. handle_read_callback B (Inr d) c = Inr (ret, c') \<and> env c' = env c \<and>
    buffer (ses c') = buffer (ses c) @ d \<and> credentials (ses c') = credentials (ses c) \<and>
    (pending (ses c') = pending (ses c) @ [Async_Read] \<and> response (ses c') = response (ses c) \<or>
     pending (ses c') = pending (ses c) @ [Async_Write] \<and> rejection (response (ses c')) \<or>
     pending (ses c') = pending (ses c) @ [Async_Read, Async_Write] \<and> rejection (response (ses c')) \<and>
       expired_at (ses c) (clock (env c)))"
proof -
  obtain c1 where c1: "env c1 = env c" "ses c1 = (ses c)\<lparr>buffer := buffer (ses c) @ d\<rparr>"
      "handle_read_callback B (Inr d) c =
        (case parser_put B (buffer (ses c) @ d) of
           Put_error msg \<Rightarrow> Inr (Some 1, handle_write (set_response (plain_response B status_bad_request ''Bad request'')
             (log_with (logErrorFile (''Error parsing request: '' @ msg)) c1)))
         | Put_done req \<Rightarrow> process_request B req c1
         | Put_more \<Rightarrow> Inr (None, handle_read c1)
         | Put_throws msg \<Rightarrow> Inr (Some 1, handle_write (set_response (plain_response B status_internal_server_error ''Internal Server Error'')
             (log_with (logErrorFile ''Exception caught in handle_read_callback'') c1))))"
    by (rule handle_read_callback_received)
  show ?thesis
  proof (cases "parser_put B (buffer (ses c) @ d)")
    case (Put_done req)
    show ?thesis
    proof (cases "expired_at (ses c) (clock (env c))")
      case True
      then show ?thesis using process_request_expired [of c1 B req] c1 Put_done by (auto simp: rejection_def)
    next
      case False
      then have "\<forall>hdr. fields_find B field_authorization (req_fields req) = Some hdr \<longrightarrow> \<not> valid_header (credentials (ses c1)) hdr"
        using assms Put_done c1(2) by (auto simp: authorised_def)
      then show ?thesis using process_request_rejected [of c1 B req] False c1 Put_done by (auto simp: rejection_def)
    qed
  qed (use c1 in \<open>simp_all add: rejection_def\<close>)
qed

lemma read_authorised:
  assumes "authorised B (credentials (ses c)) (buffer (ses c) @ d)" and "\<not> expired_at (ses c) (clock (env c))"
  shows "\<exists>req c1. parser_put B (buffer (ses c) @ d) = Put_done req \<and> handle_read_callback B (Inr d) c = dispatch_request B req c1 \<and>
    env c1 = env c \<and> ses c1 = (ses c)\<lparr>buffer := buffer (ses c) @ d, last_auth_time := clock (env c)\<rparr>"
proof -
  obtain req hdr where req: "parser_put B (buffer (ses c) @ d) = Put_done req"
      "fields_find B field_authorization (req_fields req) = Some hdr" "valid_header (credentials (ses c)) hdr"
    using assms(1) by (auto simp: authorised_def split: put_result.splits option.splits)
  obtain c1 where c1: "env c1 = env c" "ses c1 = (ses c)\<lparr>buffer := buffer (ses c) @ d\<rparr>"
      "handle_read_callback B (Inr d) c = process_request B req c1"
    by (rule handle_read_callback_received [of c d B]) (use req(1) in simp)
  then obtain c2 where "process_request B req c1 = dispatch_request B req c2" "env c2 = env c1"
      "ses c2 = (ses c1)\<lparr>last_auth_time := clock (env c1)\<rparr>"
    using process_request_accepted [of c1 B req hdr] req(2,3) assms(2) by auto
  with c1 req(1) show ?thesis by (intro exI [of _ req] exI [of _ c2]) simp
qed

text \<open>
  C12. Without a valid credential nothing but the session itself is touched: when the bytes received
  do not form a complete request with a valid credential, or the session has expired, the read
  callback returns without fault, leaves file system and clock as they were, and either waits for
  more bytes with the response unchanged or starts a write of a 400, 401 or 500 response.
\<close>

theorem unauthorised_never_dispatched:
  assumes "\<not> authorised B (credentials (ses c)) (buffer (ses c) @ d) \<or> expired_at (ses c) (clock (env c))"
  shows "\<exists>ret c'. handle_read_callback B (Inr d) c = Inr (ret, c') \<and> env c' = env c \<and>
    (pending (ses c') = pending (ses c) @ [Async_Read] \<and> response (ses c') = response (ses c) \<or>
     Async_Write \<in> set (drop (length (pending (ses c))) (pending (ses c'))) \<and>
       status_code (res_result (response (ses c'))) \<in> {400, 401, 500})"
  using read_unauthorised [OF assms] by (auto simp: rejection_def)

text \<open>A request for the witnesses: the target, and the authorization header when given.\<close>

definition auth_request :: "string \<Rightarrow> string option \<Rightarrow> request" where
  "auth_request t h = \<lparr>req_method = verb_get, req_method_string = ''GET'', req_target = t, req_version = 11,
     req_fields = (case h of None \<Rightarrow> [] | Some v \<Rightarrow> [(''Authorization'', v)]), req_body = []\<rparr>"

definition good_header :: string where
  "good_header = ''Basic '' @ base64_encode (''tariq'' @ '':'' @ ''123'')"

lemma good_header_valid: "valid_header [''tariq'' \<mapsto> ''123''] good_header"
  unfolding good_header_def by (rule valid_header_encoded) simp_all

lemma auth_request_find:
  "fields_find (ref_boost put) field_authorization (req_fields (auth_request t h)) = h"
  by (cases h) (simp_all add: ref_boost_def auth_request_def)

theorem unauthorised_never_dispatched_witness:
  "\<exists>ret c'. handle_read_callback (ref_boost (\<lambda>_. Put_done (auth_request ''/health'' None))) (Inr ''x'') sample_connection = Inr (ret, c') \<and>
    env c' = env sample_connection \<and>
    (pending (ses c') = pending (ses sample_connection) @ [Async_Read] \<and> response (ses c') = response (ses sample_connection) \<or>
     Async_Write \<in> set (drop (length (pending (ses sample_connection))) (pending (ses c'))) \<and>
       status_code (res_result (response (ses c'))) \<in> {400, 401, 500})"
  by (rule unauthorised_never_dispatched)
     (simp add: authorised_def auth_request_find)

text \<open>
  An authenticated request is answered by the handler the dispatcher selects: when the bytes
  received are a complete request with a valid credential and the session has not expired, the
  callback records the time of authentication and then returns 0 with exactly one write of the
  selected handler's response started, or of the 404 response when there is no handler; a fault of
  the handler is a fault of the callback.
\<close>

lemma authorised_request_cases:
  assumes "authorised B (credentials (ses c)) (buffer (ses c) @ d)" and "\<not> expired_at (ses c) (clock (env c))"
  shows "\<exists>req. parser_put B (buffer (ses c) @ d) = Put_done req \<and>
    (case getRequestHandler (dispatcher (ses c)) (req_target req) of
       None \<Rightarrow> \<exists>c'. handle_read_callback B (Inr d) c = Inr (Some 0, c') \<and> env c' = env c \<and>
         ses c' = (ses c)\<lparr>buffer := buffer (ses c) @ d, last_auth_time := clock (env c),
           response := plain_response B status_not_found ''Not Found'', pending := pending (ses c) @ [Async_Write]\<rparr>
     | Some h \<Rightarrow>
         (case handleRequest B h req (response (ses c)) (env c) of
            Inl f \<Rightarrow> handle_read_callback B (Inr d) c = Inl f
          | Inr (r, w) \<Rightarrow> \<exists>c'. handle_read_callback B (Inr d) c = Inr (Some 0, c') \<and> env c' = w \<and>
              ses c' = (ses c)\<lparr>buffer := buffer (ses c) @ d, last_auth_time := clock (env c),
                response := r, pending := pending (ses c) @ [Async_Write]\<rparr>))"
proof -
  obtain req c1 where req: "parser_put B (buffer (ses c) @ d) = Put_done req"
      "handle_read_callback B (Inr d) c = dispatch_request B req c1" "env c1 = env c"
      "ses c1 = (ses c)\<lparr>buffer := buffer (ses c) @ d, last_auth_time := clock (env c)\<rparr>"
    using read_authorised [OF assms] by blast
  show ?thesis
  proof (cases "getRequestHandler (dispatcher (ses c)) (req_target req)")
    case None
    then show ?thesis using req dispatch_request_None [of c1 req B] by simp
  next
    case (Some h)
    then show ?thesis using req dispatch_request_Some [of c1 req h B] by (auto split: sum.splits)
  qed
qed

section \<open>What the read callback can do\<close>

definition own_responses :: "boost \<Rightarrow> response set" where
  "own_responses B =
     {plain_response B status_bad_request ''Bad request'', plain_response B status_internal_server_error ''Internal Server Error'',
      plain_response B status_not_found ''Not Found'', unauthorized_response B}"

text \<open>
  Every outcome of a read that delivers bytes: the session keeps its configuration, the bytes are
  appended, and either nothing but another read happens or a write starts, of a response of the
  session itself or of a handler.
\<close>

lemma dispatch_request_outcome:
  assumes "dispatch_request B req c = Inr (ret, c')"
  shows "\<exists>r. ses c' = (ses c)\<lparr>response := r, pending := pending (ses c) @ [Async_Write]\<rparr> \<and>
    (r \<in> own_responses B \<and> env c' = env c \<or> (\<exists>h. handleRequest B h req (response (ses c)) (env c) = Inr (r, env c')))"
proof (cases "getRequestHandler (dispatcher (ses c)) (req_target req)")
  case None
  then show ?thesis using dispatch_request_None [OF None, of B] assms by (auto simp: own_responses_def)
next
  case (Some h)
  then show ?thesis using dispatch_request_Some [OF Some, of B] assms by fastforce
qed

lemma process_request_outcome:
  assumes "process_request B req c = Inr (ret, c')"
  shows "\<exists>t r ops. ses c' = (ses c)\<lparr>last_auth_time := t, response := r, pending := pending (ses c) @ ops\<rparr> \<and>
    t \<in> {last_auth_time (ses c), clock (env c)} \<and> ops \<in> {[Async_Write], [Async_Read, Async_Write]} \<and>
    (r \<in> own_responses B \<and> env c' = env c \<or> (\<exists>h. handleRequest B h req (response (ses c)) (env c) = Inr (r, env c')))"
proof (cases "expired_at (ses c) (clock (env c))")
  case True
  then show ?thesis using process_request_expired [OF True, of B req] assms by (fastforce simp: own_responses_def)
next
  case False
  show ?thesis
  proof (cases "\<exists>hdr. fields_find B field_authorization (req_fields req) = Some hdr \<and> valid_header (credentials (ses c)) hdr")
    case True
    then obtain c1 where c1: "process_request B req c = dispatch_request B req c1" "env c1 = env c"
        "ses c1 = (ses c)\<lparr>last_auth_time := clock (env c)\<rparr>"
      using process_request_accepted [OF False] by blast
    from dispatch_request_outcome [of B req c1 ret c'] assms c1
    obtain r where "ses c' = (ses c1)\<lparr>response := r, pending := pending (ses c1) @ [Async_Write]\<rparr>"
        "r \<in> own_responses B \<and> env c' = env c1 \<or> (\<exists>h. handleRequest B h req (response (ses c1)) (env c1) = Inr (r, env c'))"
      by auto
    then show ?thesis
      using c1(2,3) by (intro exI [of _ "clock (env c)"] exI [of _ r] exI [of _ "[Async_Write]"]) simp
  next
    case rejected: False
    obtain c2 where "process_request B req c = Inr (Some 1, c2)" "env c2 = env c"
        "ses c2 = (ses c)\<lparr>response := unauthorized_response B, pending := pending (ses c) @ [Async_Write]\<rparr>"
      using process_request_rejected [OF False, of B req] rejected by blast
    then show ?thesis
      using assms
      by (intro exI [of _ "last_auth_time (ses c)"] exI [of _ "unauthorized_response B"] exI [of _ "[Async_Write]"])
         (simp add: own_responses_def)
  qed
qed

lemma read_callback_outcome:
  assumes "handle_read_callback B (Inr d) c = Inr (ret, c')"
  shows "\<exists>t r ops. ses c' = (ses c)\<lparr>buffer := buffer (ses c) @ d, last_auth_time := t, response := r, pending := pending (ses c) @ ops\<rparr> \<and>
    t \<in> {last_auth_time (ses c), clock (env c)} \<and>
    (ops = [Async_Read] \<and> r = response (ses c) \<and> env c' = env c \<or>
     ops \<in> {[Async_Write], [Async_Read, Async_Write]} \<and>
       (r \<in> own_responses B \<and> env c' = env c \<or> (\<exists>h req. handleRequest B h req (response (ses c)) (env c) = Inr (r, env c'))))"
proof -
  obtain c1 where c1: "env c1 = env c" "ses c1 = (ses c)\<lparr>buffer := buffer (ses c) @ d\<rparr>"
      "handle_read_callback B (Inr d) c =
        (case parser_put B (buffer (ses c) @ d) of
           Put_error msg \<Rightarrow> Inr (Some 1, handle_write (set_response (plain_response B status_bad_request ''Bad request'')
             (log_with (logErrorFile (''Error parsing request: '' @ msg)) c1)))
         | Put_done req \<Rightarrow> process_request B req c1
         | Put_more \<Rightarrow> Inr (None, handle_read c1)
         | Put_throws msg \<Rightarrow> Inr (Some 1, handle_write (set_response (plain_response B status_internal_server_error ''Internal Server Error'')
             (log_with (logErrorFile ''Exception caught in handle_read_callback'') c1))))"
    by (rule handle_read_callback_received)
  have own: ?thesis if "c' = handle_write (set_response r (log_with f c1))" "r \<in> own_responses B" for r f
    using that c1(1,2)
    by (intro exI [of _ "last_auth_time (ses c)"] exI [of _ r] exI [of _ "[Async_Write]"]) simp
  show ?thesis
  proof (cases "parser_put B (buffer (ses c) @ d)")
    case (Put_done req)
    with assms c1(3) have "process_request B req c1 = Inr (ret, c')" by simp
    from process_request_outcome [OF this] obtain t r ops where
      o: "ses c' = (ses c1)\<lparr>last_auth_time := t, response := r, pending := pending (ses c1) @ ops\<rparr>"
        "t \<in> {last_auth_time (ses c1), clock (env c1)}" "ops \<in> {[Async_Write], [Async_Read, Async_Write]}"
        "r \<in> own_responses B \<and> env c' = env c1 \<or> (\<exists>h. handleRequest B h req (response (ses c1)) (env c1) = Inr (r, env c'))"
      by blast
    then show ?thesis using c1(1,2) by (intro exI [of _ t] exI [of _ r] exI [of _ ops]) auto
  next
    case Put_more
    then show ?thesis using c1 assms by (intro exI [of _ "last_auth_time (ses c)"] exI [of _ "response (ses c)"]) auto
  next
    case (Put_error msg)
    then show ?thesis using c1(3) assms own by (simp add: own_responses_def)
  next
    case (Put_throws msg)
    then show ?thesis using c1(3) assms own by (simp add: own_responses_def)
  qed
qed

section \<open>Effects outside the session\<close>

text \<open>
  The bytes \<open>d\<close> complete a request of an authenticated user on a live session, and the
  dispatcher has the handler \<open>h\<close> for it.
\<close>

definition handled_by :: "boost \<Rightarrow> session \<Rightarrow> int \<Rightarrow> string \<Rightarrow> request \<Rightarrow> RequestHandler \<Rightarrow> bool" where
  "handled_by B s now d req h \<longleftrightarrow> authorised B (credentials s) (buffer s @ d) \<and> \<not> expired_at s now \<and>
     parser_put B (buffer s @ d) = Put_done req \<and> getRequestHandler (dispatcher s) (req_target req) = Some h"

lemma handled_by_pending [simp]: "handled_by B (s\<lparr>pending := p\<rparr>) now d req h \<longleftrightarrow> handled_by B s now d req h"
  by (simp add: handled_by_def expired_at_def)

lemma handled_by_authorised: "handled_by B s now d req h \<Longrightarrow> authorised B (credentials s) (buffer s @ d)"
  by (simp add: handled_by_def)

lemma read_callback_error:
  shows "handle_read_callback B (Inl msg) c \<noteq> Inl f"
    and "handle_read_callback B (Inl msg) c = Inr (ret, c') \<Longrightarrow> ses c' = ses c"
    and "handle_read_callback B (Inl msg) c = Inr (ret, c') \<Longrightarrow> env c' = env c"
  by (auto simp: handle_read_callback_def Let_def)

lemma read_callback_effect:
  assumes "handle_read_callback B (Inr d) c = Inr (ret, c')"
  shows "buffer (ses c') = buffer (ses c) @ d"
    and "env c' = env c \<or> (\<exists>req h r. handled_by B (ses c) (clock (env c)) d req h \<and>
      handleRequest B h req (response (ses c)) (env c) = Inr (r, env c'))"
proof -
  show "buffer (ses c') = buffer (ses c) @ d" using read_callback_outcome [OF assms] by auto
  show "env c' = env c \<or> (\<exists>req h r. handled_by B (ses c) (clock (env c)) d req h \<and>
      handleRequest B h req (response (ses c)) (env c) = Inr (r, env c'))"
  proof (cases "authorised B (credentials (ses c)) (buffer (ses c) @ d) \<and> \<not> expired_at (ses c) (clock (env c))")
    case True
    then obtain req where "parser_put B (buffer (ses c) @ d) = Put_done req"
      "case getRequestHandler (dispatcher (ses c)) (req_target req) of
         None \<Rightarrow> env c' = env c
       | Some h \<Rightarrow> \<exists>r. handleRequest B h req (response (ses c)) (env c) = Inr (r, env c')"
      using authorised_request_cases [of B c d] assms by (fastforce split: option.splits sum.splits)
    then show ?thesis using True by (auto simp: handled_by_def split: option.splits)
  next
    case False
    then show ?thesis using read_unauthorised [of B c d] assms by auto
  qed
qed

lemma read_callback_fault:
  assumes "handle_read_callback B (Inr d) c = Inl f"
  shows "\<exists>req h. handled_by B (ses c) (clock (env c)) d req h \<and> handleRequest B h req (response (ses c)) (env c) = Inl f"
proof -
  have ok: "authorised B (credentials (ses c)) (buffer (ses c) @ d) \<and> \<not> expired_at (ses c) (clock (env c))"
    using read_unauthorised [of B c d] assms by auto
  then show ?thesis
    using authorised_request_cases [of B c d] assms by (fastforce simp: handled_by_def split: option.splits sum.splits)
qed

end
