(* ===== verification/Session_Log.thy ===== *)
theory Session_Log
  imports Session
begin

text \<open>
  The log records of a served request, and that what a callback does depends on the session, the
  file system and the clock but not on the log.
\<close>

section \<open>The log of a served request\<close>

lemma process_request_log:
  assumes "\<not> expired_at (ses c) (clock (env c))" and "fields_find B field_authorization (req_fields req) = Some hdr"
    and "valid_header (credentials (ses c)) hdr" and "log c \<noteq> None"
  shows "\<exists>c1. process_request B req c = dispatch_request B req c1 \<and> env c1 = env c \<and>
    ses c1 = (ses c)\<lparr>last_auth_time := clock (env c)\<rparr> \<and>
    log c1 = logDebugFile (''Authorization header is set: '' @ hdr) (logTraceHTTPrequest req (log c))"
proof -
  let ?c1 = "log_with (logDebugFile (''Authorization header is set: '' @ hdr)) (log_with (logTraceHTTPrequest req) c)"
  have "log_with getLogger ?c1 = ?c1" using assms(4) by (simp add: log_with_def log_ops)
  then have "is_session_expired ?c1 = (False, ?c1)"
    using assms(1) by (simp add: is_session_expired_def Let_def expired_at_def)
  then have "process_request B req c = dispatch_request B req (set_last_auth_time (clock (env c)) ?c1)"
    using assms(2,3) by (simp add: process_request_def Let_def req_field_def authenticate_eq)
  then show ?thesis by (intro exI [of _ "set_last_auth_time (clock (env c)) ?c1"]) simp
qed

lemma dispatch_request_log:
  assumes "getRequestHandler (dispatcher (ses c)) (req_target req) = Some h"
    and "handleRequest B h req (response (ses c)) (env c) = Inr (r, w)" and "log c \<noteq> None"
  shows "\<exists>c'. dispatch_request B req c = Inr (Some 0, c') \<and> (logger_inv (log c) \<longrightarrow> logger_inv (log c')) \<and>
    log_of (log c') = log_of (log c) @
      [(sev_debug, ''Debug: Sending a response message to client...''),
       (sev_debug, ''Debug: Status Code: '' @ nat_to_string (status_code (res_result r))),
       (sev_info, ''ResponseMetrics: '' @ getName h @ '' '' @ nat_to_string (status_code (res_result r))),
       (sev_debug, ''Debug: Writing response to client'')]"
  using assms by (auto simp: dispatch_request_def Let_def handle_write_def log_ops log_of_log_sev)

text \<open>
  C32. What the log shows of a served request: exactly six records, the request line, the
  authorization header in full, the status, one metrics record naming the handler and the status
  code, and the start of the write; the logger keeps its one file and one console sink.
\<close>

theorem served_request_log:
  assumes "parser_put B (buffer (ses c) @ d) = Put_done req" and "\<not> expired_at (ses c) (clock (env c))"
    and "fields_find B field_authorization (req_fields req) = Some hdr" and "valid_header (credentials (ses c)) hdr"
    and "getRequestHandler (dispatcher (ses c)) (req_target req) = Some h"
    and "handleRequest B h req (response (ses c)) (env c) = Inr (r, w)" and "logger_inv (log c)"
  shows "\<exists>c'. handle_read_callback B (Inr d) c = Inr (Some 0, c') \<and> logger_inv (log c') \<and>
    log_of (log c') = log_of (log c) @
      [(sev_trace, ''Trace: '' @ req_method_string req @ '' '' @ req_target req @ '' HTTP '' @
          nat_to_string (req_version req div 10) @ ''.'' @ nat_to_string (req_version req mod 10)),
       (sev_debug, ''Debug: Authorization header is set: '' @ hdr),
       (sev_debug, ''Debug: Sending a response message to client...''),
       (sev_debug, ''Debug: Status Code: '' @ nat_to_string (status_code (res_result r))),
       (sev_info, ''ResponseMetrics: '' @ getName h @ '' '' @ nat_to_string (status_code (res_result r))),
       (sev_debug, ''Debug: Writing response to client'')]"
proof -
  let ?c = "(log_with getLogger c)\<lparr>ses := (ses c)\<lparr>buffer := buffer (ses c) @ d\<rparr>\<rparr>"
  have cb: "handle_read_callback B (Inr d) c = process_request B req ?c"
    using assms(1) by (simp add: handle_read_callback_def Let_def)
  obtain c1 where c1: "process_request B req ?c = dispatch_request B req c1" "env c1 = env c"
      "ses c1 = (ses c)\<lparr>buffer := buffer (ses c) @ d, last_auth_time := clock (env c)\<rparr>"
      "log c1 = logDebugFile (''Authorization header is set: '' @ hdr) (logTraceHTTPrequest req (getLogger (log c)))"
    using process_request_log [of ?c B req hdr] assms(2-4) by auto
  have "logger_inv (log c1)" "log c1 \<noteq> None" using assms(7) by (simp_all add: c1(4) log_ops)
  with dispatch_request_log [of c1 req h B r w] assms(5,6) cb c1
  show ?thesis by (auto simp: log_ops log_of_log_sev)
qed

theorem served_request_log_witness:
  "\<exists>c'. handle_read_callback (ref_boost (\<lambda>_. Put_done (auth_request ''/health'' (Some good_header)))) (Inr ''x'') sample_connection =
     Inr (Some 0, c') \<and> (sev_debug, ''Debug: Authorization header is set: '' @ good_header) \<in> set (log_of (log c'))"
proof -
  let ?B = "ref_boost (\<lambda>_. Put_done (auth_request ''/health'' (Some good_header)))" and ?r = "auth_request ''/health'' (Some good_header)"
  have e: "\<not> expired_at (ses sample_connection) (clock (env sample_connection))"
    by (simp add: expired_at_def duration_seconds_def sample_world_def)
  have v: "valid_header (credentials (ses sample_connection)) good_header" using good_header_valid by simp
  have "getRequestHandler example_handlers ''/health'' = Some RequestHandlerHealth" by code_simp
  then have h: "getRequestHandler (dispatcher (ses sample_connection)) (req_target ?r) = Some RequestHandlerHealth"
    by (simp add: auth_request_def)
  have l: "logger_inv (log sample_connection)"
    by (simp add: sample_connection_def logger_inv_def new_Logger_def Logger_init_def)
  from served_request_log [of ?B sample_connection "''x''" ?r, OF _ e auth_request_find v h _ l] show ?thesis by auto
qed


section \<open>The log has no influence\<close>

text \<open>Two connections that differ in the log only, and callbacks that agree up to the log.\<close>

definition same_but_log :: "connection \<Rightarrow> connection \<Rightarrow> bool" where
  "same_but_log c1 c2 \<longleftrightarrow> ses c1 = ses c2 \<and> env c1 = env c2"

definition agree_but_log :: "(int option \<times> connection) res \<Rightarrow> (int option \<times> connection) res \<Rightarrow> bool" where
  "agree_but_log = rel_sum (=) (rel_prod (=) same_but_log)"

lemma agree_but_log_simps [simp]:
  "agree_but_log (Inl f) (Inl g) \<longleftrightarrow> f = g" "agree_but_log (Inr (r, c1)) (Inr (r', c2)) \<longleftrightarrow> r = r' \<and> same_but_log c1 c2"
  by (simp_all add: agree_but_log_def)

lemma dispatch_request_log_irrelevant:
  assumes "same_but_log c1 c2"
  shows "agree_but_log (dispatch_request B req c1) (dispatch_request B req c2)"
proof (cases "getRequestHandler (dispatcher (ses c1)) (req_target req)")
  case None
  then show ?thesis
    using assms dispatch_request_None [of c1 req B] dispatch_request_None [of c2 req B] by (auto simp: same_but_log_def)
next
  case (Some h)
  then show ?thesis
    using assms dispatch_request_Some [of c1 req h B] dispatch_request_Some [of c2 req h B] by (auto simp: same_but_log_def)
qed

lemma process_request_log_irrelevant:
  assumes "same_but_log c1 c2"
  shows "agree_but_log (process_request B req c1) (process_request B req c2)"
proof (cases "expired_at (ses c1) (clock (env c1))")
  case True
  then show ?thesis
    using assms process_request_expired [of c1 B req] process_request_expired [of c2 B req] by (auto simp: same_but_log_def)
next
  case False
  then have live: "\<not> expired_at (ses c2) (clock (env c2))" using assms by (simp add: same_but_log_def)
  show ?thesis
  proof (cases "\<exists>hdr. fields_find B field_authorization (req_fields req) = Some hdr \<and> valid_header (credentials (ses c1)) hdr")
    case True
    then obtain d1 d2 where "process_request B req c1 = dispatch_request B req d1" "process_request B req c2 = dispatch_request B req d2"
        "same_but_log d1 d2"
      using process_request_accepted [OF False, of B req] process_request_accepted [OF live, of B req] assms
      by (fastforce simp: same_but_log_def)
    then show ?thesis using dispatch_request_log_irrelevant by simp
  next
    case rejected: False
    then show ?thesis
      using process_request_rejected [OF False, of B req] process_request_rejected [OF live, of B req] assms
      by (auto simp: same_but_log_def)
  qed
qed

lemma read_callback_log_irrelevant:
  assumes "same_but_log c1 c2"
  shows "agree_but_log (handle_read_callback B completion c1) (handle_read_callback B completion c2)"
proof (cases completion)
  case (Inl msg)
  then show ?thesis using assms by (simp add: handle_read_callback_def Let_def same_but_log_def)
next
  case (Inr d)
  have "same_but_log (log_with getLogger c1\<lparr>ses := (ses c1)\<lparr>buffer := buffer (ses c1) @ d\<rparr>\<rparr>)
      (log_with getLogger c2\<lparr>ses := (ses c2)\<lparr>buffer := buffer (ses c2) @ d\<rparr>\<rparr>)"
    using assms by (simp add: same_but_log_def log_with_def)
  from process_request_log_irrelevant [OF this, of B] show ?thesis
    using assms by (cases "parser_put B (buffer (ses c1) @ d)") (auto simp: handle_read_callback_def Let_def Inr same_but_log_def)
qed

end
