(* ===== verification/Session_Run.thy ===== *)
theory Session_Run
  imports Session_Log
begin

text \<open>
  The life of a session as Asio drives it: operations complete in any order, time passes and other
  sessions work in between. A step relation over the methods of \<open>Session\<close>, the
  states reachable from \<^verbatim>\<open>start()\<close>, what holds in all of them, and what happens
  around an expired session.
\<close>

section \<open>Steps\<close>

definition complete :: "async_op \<Rightarrow> connection \<Rightarrow> connection" where
  "complete x c = c\<lparr>ses := (ses c)\<lparr>pending := remove1 x (pending (ses c))\<rparr>\<rparr>"

text \<open>
  The label says whether the step is a read callback that finds the session expired. A callback
  that ends in a fault ends the process, so it has no step.
\<close>

inductive session_step :: "boost \<Rightarrow> connection \<Rightarrow> bool \<Rightarrow> connection \<Rightarrow> bool" for B where
  read_error:
    "Async_Read \<in> set (pending (ses c)) \<Longrightarrow> handle_read_callback B (Inl msg) (complete Async_Read c) = Inr (ret, c') \<Longrightarrow>
     session_step B c False c'"
| read_done:
    "Async_Read \<in> set (pending (ses c)) \<Longrightarrow> handle_read_callback B (Inr received) (complete Async_Read c) = Inr (ret, c') \<Longrightarrow>
     session_step B c (expired_at (ses c) (clock (env c)) \<and> (\<exists>req. parser_put B (buffer (ses c) @ received) = Put_done req)) c'"
| write_done:
    "Async_Write \<in> set (pending (ses c)) \<Longrightarrow> handle_write_callback error (complete Async_Write c) = (code, c') \<Longrightarrow>
     session_step B c False c'"
| others:
    "clock (env c) \<le> clock w \<Longrightarrow> session_step B c False (c\<lparr>env := w, log := lg\<rparr>)"

text \<open>States reachable from \<^verbatim>\<open>start()\<close>; the flag says whether the session ever expired.\<close>

inductive session_reaches :: "boost \<Rightarrow> connection \<Rightarrow> bool \<Rightarrow> connection \<Rightarrow> bool" for B c0 where
  started: "session_reaches B c0 False (session_start c0)"
| stepped: "session_reaches B c0 e c \<Longrightarrow> session_step B c x c' \<Longrightarrow> session_reaches B c0 (e \<or> x) c'"

section \<open>Invariants\<close>

lemma complete_simps [simp]:
  "env (complete x c) = env c" "log (complete x c) = log c"
  "ses (complete x c) = (ses c)\<lparr>pending := remove1 x (pending (ses c))\<rparr>"
  by (simp_all add: complete_def)

lemma expired_at_pending [simp]: "expired_at (s\<lparr>pending := p\<rparr>) t = expired_at s t"
  by (simp add: expired_at_def)

lemma handle_write_callback_ses:
  assumes "handle_write_callback error c = (code, c')"
  shows "buffer (ses c') = buffer (ses c) \<and> credentials (ses c') = credentials (ses c) \<and> dispatcher (ses c') = dispatcher (ses c) \<and>
    response (ses c') = response (ses c) \<and> pending (ses c') = pending (ses c) \<and> env c' = env c"
  using assms by (auto simp: handle_write_callback_def Let_def split: option.splits)

text \<open>
  What may be on its way to the client: a rejection, or the answer to a request that carried a
  valid credential in a prefix of the bytes received.
\<close>

definition write_justified :: "boost \<Rightarrow> session \<Rightarrow> bool" where
  "write_justified B s \<longleftrightarrow>
     (Async_Write \<in> set (pending s) \<longrightarrow> rejection (response s) \<or> (\<exists>buf. prefix buf (buffer s) \<and> authorised B (credentials s) buf))"

definition run_inv :: "boost \<Rightarrow> connection \<Rightarrow> bool \<Rightarrow> connection \<Rightarrow> bool" where
  "run_inv B c0 e c \<longleftrightarrow> credentials (ses c) = credentials (ses c0) \<and> write_justified B (ses c) \<and>
     (\<not> e \<longrightarrow> length (pending (ses c)) \<le> 1)"

lemma read_callback_authorised_ses:
  assumes "authorised B (credentials (ses c)) (buffer (ses c) @ d)" and "\<not> expired_at (ses c) (clock (env c))"
    and "handle_read_callback B (Inr d) c = Inr (ret, c')"
  shows "buffer (ses c') = buffer (ses c) @ d \<and> credentials (ses c') = credentials (ses c) \<and>
    pending (ses c') = pending (ses c) @ [Async_Write]"
proof -
  obtain req c1 where c1: "handle_read_callback B (Inr d) c = dispatch_request B req c1"
      "ses c1 = (ses c)\<lparr>buffer := buffer (ses c) @ d, last_auth_time := clock (env c)\<rparr>"
    using read_authorised [OF assms(1,2)] by blast
  show ?thesis
  proof (cases "getRequestHandler (dispatcher (ses c1)) (req_target req)")
    case None
    then show ?thesis using dispatch_request_None [OF None, of B] assms(3) c1 by auto
  next
    case (Some h)
    then show ?thesis using dispatch_request_Some [OF Some, of B] assms(3) c1 by auto
  qed
qed

lemma read_done_inv:
  assumes inv: "run_inv B c0 e c" and op: "Async_Read \<in> set (pending (ses c))"
    and cb: "handle_read_callback B (Inr d) (complete Async_Read c) = Inr (ret, c')"
  shows "run_inv B c0 (e \<or> expired_at (ses c) (clock (env c)) \<and> (\<exists>req. parser_put B (buffer (ses c) @ d) = Put_done req)) c'"
proof (cases "authorised B (credentials (ses c)) (buffer (ses c) @ d) \<and> \<not> expired_at (ses c) (clock (env c))")
  case True
  with read_callback_authorised_ses [of B "complete Async_Read c" d ret c'] cb
  have c': "buffer (ses c') = buffer (ses c) @ d" "credentials (ses c') = credentials (ses c)"
      "pending (ses c') = remove1 Async_Read (pending (ses c)) @ [Async_Write]"
    by auto
  have "write_justified B (ses c')" unfolding write_justified_def
    using True c' prefix_order.refl by metis
  moreover have "length (pending (ses c')) \<le> length (pending (ses c))" using op c'(3) length_pos_if_in_set [OF op] by (simp add: length_remove1)
  ultimately show ?thesis using inv c'(2) by (auto simp: run_inv_def)
next
  case False
  have buf: "prefix buf (buffer (ses c)) \<Longrightarrow> prefix buf (buffer (ses c) @ d)" for buf by simp
  from False read_unauthorised [of B "complete Async_Read c" d] cb
  have c': "buffer (ses c') = buffer (ses c) @ d" "credentials (ses c') = credentials (ses c)"
      "pending (ses c') = remove1 Async_Read (pending (ses c)) @ [Async_Read] \<and> response (ses c') = response (ses c) \<or>
       pending (ses c') = remove1 Async_Read (pending (ses c)) @ [Async_Write] \<and> rejection (response (ses c')) \<or>
       pending (ses c') = remove1 Async_Read (pending (ses c)) @ [Async_Read, Async_Write] \<and> rejection (response (ses c')) \<and>
         expired_at (ses c) (clock (env c))"
    by auto
  then have just: "write_justified B (ses c')"
    using inv buf by (fastforce simp: write_justified_def run_inv_def dest: notin_set_remove1)
  have "length (pending (ses c')) \<le> 1"
    if "\<not> (e \<or> expired_at (ses c) (clock (env c)) \<and> (\<exists>req. parser_put B (buffer (ses c) @ d) = Put_done req))"
  proof -
    have "length (pending (ses c)) \<le> 1" using inv that by (simp add: run_inv_def)
    with op have one: "remove1 Async_Read (pending (ses c)) = []"
      by (cases "pending (ses c)") auto
    have "length (pending (ses c')) \<le> 1" if "expired_at (ses c) (clock (env c))" "\<nexists>req. parser_put B (buffer (ses c) @ d) = Put_done req"
      using that cb one
      by (cases "parser_put B (buffer (ses c) @ d)") (auto simp: handle_read_callback_def Let_def)
    then show ?thesis using that c'(3) one by auto
  qed
  with just c'(2) inv show ?thesis by (simp add: run_inv_def)
qed

lemma session_step_inv:
  assumes "session_step B c x c'" and "run_inv B c0 e c"
  shows "run_inv B c0 (e \<or> x) c'"
  using assms(1)
proof cases
  case (read_error msg ret)
  then have "ses c' = (ses c)\<lparr>pending := remove1 Async_Read (pending (ses c))\<rparr>"
    by (auto simp: handle_read_callback_def Let_def)
  then show ?thesis
    using assms(2) read_error(1) by (auto simp: run_inv_def write_justified_def length_remove1 dest: notin_set_remove1)
next
  case (read_done received ret)
  then show ?thesis using read_done_inv [OF assms(2)] by simp
next
  case (write_done error code)
  from handle_write_callback_ses [OF write_done(3)] show ?thesis
    using assms(2) write_done(1) by (auto simp: run_inv_def write_justified_def length_remove1 dest: notin_set_remove1)
next
  case (others w lg)
  then show ?thesis using assms(2) by (simp add: run_inv_def)
qed

lemma session_reaches_inv:
  assumes "session_reaches B c0 e c" and "pending (ses c0) = []"
  shows "run_inv B c0 e c"
  using assms(1)
proof induction
  case started
  then show ?case using assms(2) by (simp add: run_inv_def write_justified_def session_start_def)
next
  case (stepped e c x c')
  then show ?case using session_step_inv by blast
qed

text \<open>A session never has two reads in flight, even when it has been found expired.\<close>

lemma count_list_remove1: "count_list (remove1 x xs) x = count_list xs x - 1"
  by (induction xs) auto

lemma session_step_reads:
  assumes "session_step B c x c'" and "count_list (pending (ses c)) Async_Read \<le> 1"
  shows "count_list (pending (ses c')) Async_Read \<le> 1"
proof -
  from assms(1) show ?thesis
  proof cases
    case (read_error msg ret)
    then show ?thesis using assms(2) by (auto simp: handle_read_callback_def Let_def count_list_remove1)
  next
    case (read_done received ret)
    from read_callback_outcome [OF read_done(3)] assms(2) read_done(2) show ?thesis by (auto simp: count_list_remove1)
  next
    case (write_done error code)
    have "count_list (remove1 Async_Write xs) Async_Read = count_list xs Async_Read" for xs by (induction xs) auto
    then show ?thesis using assms(2) handle_write_callback_ses [OF write_done(3)] by simp
  next
    case (others w lg)
    then show ?thesis using assms(2) by simp
  qed
qed

lemma session_reaches_reads:
  assumes "session_reaches B c0 x c" and "pending (ses c0) = []"
  shows "count_list (pending (ses c)) Async_Read \<le> 1"
  using assms(1)
proof induction
  case started
  then show ?case using assms(2) by (simp add: session_start_def)
next
  case (stepped e c x c')
  then show ?case using session_step_reads by blast
qed

text \<open>
  C11. In every reachable state of a session, in whatever order its operations complete: a response
  on its way to the client is a 400, 401 or 500, or some prefix of the bytes received is a complete
  request with a valid credential; there are never two reads in flight; and as long as the
  session has not been found expired, at most one operation is in flight at all.
\<close>

theorem session_safety:
  assumes "session_reaches B c0 e c" and "pending (ses c0) = []"
  shows "(Async_Write \<in> set (pending (ses c)) \<longrightarrow>
      status_code (res_result (response (ses c))) \<in> {400, 401, 500} \<or>
      (\<exists>buf. prefix buf (buffer (ses c)) \<and> authorised B (credentials (ses c0)) buf)) \<and>
    count_list (pending (ses c)) Async_Read \<le> 1 \<and>
    (\<not> e \<longrightarrow> length (pending (ses c)) \<le> 1)"
  using session_reaches_inv [OF assms] session_reaches_reads [OF assms] by (auto simp: run_inv_def write_justified_def rejection_def)

theorem session_safety_witness:
  "length (pending (ses (session_start sample_connection))) \<le> 1"
  using session_safety [OF session_reaches.started [of "ref_boost (\<lambda>_. Put_more)" sample_connection]] by simp

section \<open>Expiry\<close>

lemma read_expired:
  assumes "expired_at (ses c) (clock (env c))" and "parser_put B (buffer (ses c) @ d) = Put_done req"
  shows "\<exists>c'. handle_read_callback B (Inr d) c = Inr (Some 1, c') \<and> env c' = env c \<and>
    ses c' = (ses c)\<lparr>buffer := buffer (ses c) @ d, last_auth_time := clock (env c), response := unauthorized_response B,
      pending := pending (ses c) @ [Async_Read, Async_Write]\<rparr>"
proof -
  obtain c1 where c1: "env c1 = env c" "ses c1 = (ses c)\<lparr>buffer := buffer (ses c) @ d\<rparr>"
      "handle_read_callback B (Inr d) c = process_request B req c1"
    by (rule handle_read_callback_received [of c d B]) (use assms(2) in simp)
  then show ?thesis using process_request_expired [of c1 B req] assms(1) by auto
qed

lemma duration_seconds_less: "0 \<le> d \<Longrightarrow> duration_seconds d > n \<longleftrightarrow> (n + 1) * 1000000000 \<le> d"
proof -
  assume "0 \<le> d"
  then have "duration_seconds d = d div 1000000000" by (simp add: duration_seconds_def)
  moreover have "n < d div 1000000000 \<longleftrightarrow> (n + 1) * 1000000000 \<le> d"
    using div_mult_mod_eq [of d 1000000000] pos_mod_bound [of 1000000000 d] pos_mod_sign [of 1000000000 d] by auto
  ultimately show ?thesis by simp
qed

text \<open>
  The clock of a session starts when the server begins to wait for a connection, not when a
  client connects: if the first complete request arrives more than the configured time after that,
  it is answered with 401 even though it carries a valid credential.
\<close>

lemma first_request_after_idle_rejected:
  assumes "new_session disp creds at w lg = (s, lg')" and "clock w + (sint at + 1) * 1000000000 \<le> clock w'" and "clock w \<le> clock w'"
    and "parser_put B d = Put_done req"
  shows "\<exists>c'. handle_read_callback B (Inr d) \<lparr>ses = s, env = w', log = lg'\<rparr> = Inr (Some 1, c') \<and>
    status_code (res_result (response (ses c'))) = 401 \<and> env c' = w'"
proof -
  let ?c = "\<lparr>ses = s, env = w', log = lg'\<rparr>"
  have s: "last_auth_time s = clock w" "auth_time s = at" "buffer s = []"
    using assms(1) by (auto simp: new_session_def)
  have "expired_at (ses ?c) (clock (env ?c))"
    using duration_seconds_less [of "clock w' - clock w" "sint at"] assms(2,3) by (simp add: expired_at_def s)
  then show ?thesis using read_expired [of ?c B d req] assms(4) s(3) by auto
qed

text \<open>A complete request always starts a write, unless its handler faults.\<close>

lemma complete_request_writes:
  assumes "parser_put B (buffer (ses c) @ d) = Put_done req"
  shows "(\<exists>f. handle_read_callback B (Inr d) c = Inl f) \<or>
    (\<exists>ret c' ops. handle_read_callback B (Inr d) c = Inr (ret, c') \<and> pending (ses c') = pending (ses c) @ ops \<and>
      ops \<in> {[Async_Write], [Async_Read, Async_Write]})"
proof (cases "authorised B (credentials (ses c)) (buffer (ses c) @ d) \<and> \<not> expired_at (ses c) (clock (env c))")
  case True
  show ?thesis
  proof (cases "handle_read_callback B (Inr d) c")
    case (Inr z)
    then show ?thesis using True read_callback_authorised_ses [of B c d "fst z" "snd z"] by (cases z) simp
  qed simp
next
  case False
  obtain c1 where c1: "env c1 = env c" "ses c1 = (ses c)\<lparr>buffer := buffer (ses c) @ d\<rparr>"
      "handle_read_callback B (Inr d) c = process_request B req c1"
    by (rule handle_read_callback_received [of c d B]) (use assms in simp)
  show ?thesis
  proof (cases "expired_at (ses c) (clock (env c))")
    case True
    then show ?thesis using read_expired [OF True assms] by auto
  next
    case not_expired: False
    then have "\<forall>hdr. fields_find B field_authorization (req_fields req) = Some hdr \<longrightarrow> \<not> valid_header (credentials (ses c1)) hdr"
      using False assms c1(2) by (auto simp: authorised_def)
    then show ?thesis using process_request_rejected [of c1 B req] not_expired c1 by auto
  qed
qed


definition late_connection :: connection where
  "late_connection = (session_start sample_connection)\<lparr>env := sample_world\<lparr>clock := 1801 * 1000000000\<rparr>\<rparr>"


section \<open>Incomplete requests\<close>

text \<open>
  Control runs off the end of the read callback, which has a return type, exactly when the bytes
  received so far are not a complete request and not an error; the callback has then kept the bytes,
  sent nothing and started another read.
\<close>

lemma read_callback_falls_off:
  "(\<exists>c'. handle_read_callback B (Inr d) c = Inr (None, c') \<and> env c' = env c \<and>
      ses c' = (ses c)\<lparr>buffer := buffer (ses c) @ d, pending := pending (ses c) @ [Async_Read]\<rparr>) \<longleftrightarrow>
   parser_put B (buffer (ses c) @ d) = Put_more"
proof -
  have returns: "ret \<noteq> None" if "process_request B req c1 = Inr (ret, c')" for req c1 ret c'
    using that
    by (auto simp: process_request_def dispatch_request_def Let_def case_prod_beta bind_res_eq_Inr_iff split: if_splits option.splits)
  show ?thesis
    by (rule handle_read_callback_received [of c d B])
       (use returns in \<open>auto split: put_result.splits\<close>)
qed


section \<open>Configuration, time and messages\<close>

text \<open>What no step changes of a session, and that time only moves forward.\<close>

lemma session_step_keeps:
  assumes "session_step B c x c'"
  shows "dispatcher (ses c') = dispatcher (ses c)" "credentials (ses c') = credentials (ses c)" "auth_time (ses c') = auth_time (ses c)"
    and "clock (env c) \<le> clock (env c')"
    and "last_auth_time (ses c) \<le> clock (env c) \<Longrightarrow> last_auth_time (ses c') \<le> clock (env c')"
    and "prefix (buffer (ses c)) (buffer (ses c'))"
proof -
  have "dispatcher (ses c') = dispatcher (ses c) \<and> credentials (ses c') = credentials (ses c) \<and> auth_time (ses c') = auth_time (ses c) \<and>
    clock (env c) \<le> clock (env c') \<and> last_auth_time (ses c') \<in> {last_auth_time (ses c), clock (env c)} \<and>
    prefix (buffer (ses c)) (buffer (ses c'))"
    using assms
  proof cases
    case (read_error msg ret)
    then show ?thesis by (auto simp: handle_read_callback_def Let_def)
  next
    case (read_done received ret)
    from read_callback_outcome [OF read_done(3)] show ?thesis
      by (auto dest!: handleRequest_effects split: if_splits)
  next
    case (write_done error code)
    then show ?thesis by (auto simp: handle_write_callback_def Let_def split: option.splits)
  next
    case (others w lg)
    then show ?thesis by simp
  qed
  then show "dispatcher (ses c') = dispatcher (ses c)" "credentials (ses c') = credentials (ses c)" "auth_time (ses c') = auth_time (ses c)"
    "clock (env c) \<le> clock (env c')" "last_auth_time (ses c) \<le> clock (env c) \<Longrightarrow> last_auth_time (ses c') \<le> clock (env c')"
    "prefix (buffer (ses c)) (buffer (ses c'))"
    by auto
qed

definition write_sendable :: "boost \<Rightarrow> session \<Rightarrow> bool" where
  "write_sendable B s \<longleftrightarrow> (Async_Write \<in> set (pending s) \<longrightarrow> sendable B (response s))"

lemma own_responses_sendable:
  assumes "boost_laws B" and "r \<in> own_responses B"
  shows "sendable B r"
  using assms(2)
  by (auto simp: own_responses_def sendable_def framed_def plain_response_def make_response_def unauthorized_response_def Let_def
      boost_laws.res_find_set [OF assms(1)] boost_laws.res_find_prepare_length [OF assms(1)] boost_laws.res_find_prepare [OF assms(1)])

lemma session_step_sendable:
  assumes "boost_laws B" and "session_step B c x c'" and "write_sendable B (ses c)"
  shows "write_sendable B (ses c')"
  using assms(2)
proof cases
  case (read_error msg ret)
  then show ?thesis using assms(3) by (auto simp: handle_read_callback_def Let_def write_sendable_def dest: notin_set_remove1)
next
  case (read_done received ret)
  note handler_sendable = request_handler.answer_sendable [OF handleRequest_contract [OF assms(1)]]
  from read_callback_outcome [OF read_done(3)] assms(3) show ?thesis
    by (auto simp: write_sendable_def intro: own_responses_sendable [OF assms(1)] handler_sendable dest: notin_set_remove1)
next
  case (write_done error code)
  from handle_write_callback_ses [OF write_done(3)] show ?thesis
    using assms(3) by (auto simp: write_sendable_def dest: notin_set_remove1)
next
  case (others w lg)
  then show ?thesis using assms(3) by simp
qed

text \<open>All that holds of a session between two events.\<close>

lemma session_reaches_keeps:
  assumes "session_reaches B c0 e c"
  shows "dispatcher (ses c) = dispatcher (ses c0) \<and> credentials (ses c) = credentials (ses c0) \<and> auth_time (ses c) = auth_time (ses c0) \<and>
    clock (env c0) \<le> clock (env c) \<and> (last_auth_time (ses c0) \<le> clock (env c0) \<longrightarrow> last_auth_time (ses c) \<le> clock (env c))"
  using assms
proof induction
  case started
  then show ?case by (simp add: session_start_def)
next
  case (stepped e c x c')
  then show ?case using session_step_keeps [OF stepped.hyps(2)] by auto
qed

lemma session_reaches_sendable:
  assumes "session_reaches B c0 e c" and "boost_laws B" and "pending (ses c0) = []"
  shows "write_sendable B (ses c)"
  using assms(1)
proof induction
  case started
  then show ?case using assms(3) by (simp add: write_sendable_def session_start_def)
next
  case (stepped e c x c')
  then show ?case using session_step_sendable [OF assms(2)] by blast
qed

end
