(* ===== verification/Server.thy ===== *)
theory Server
  imports Session_Run
begin

text \<open>
  \<^verbatim>\<open>server\<close> of \<^verbatim>\<open>src/server.{h,cc}\<close>: the accept loop, one handler at a
  time. Asio is modelled by the accepts that have been started and not completed, each with the
  session that will use the connection; binding the acceptor either works or throws.
\<close>

section \<open>The class\<close>

record server =
  acceptor_port :: nat
  srv_dispatcher :: handlers
  srv_credentials :: credentials
  srv_auth_time :: "16 word"
  accepting :: "session list"
  started :: "session list"

definition start_accept :: "world \<Rightarrow> server \<Rightarrow> logger_ptr \<Rightarrow> server \<times> logger_ptr" where
  "start_accept w srv lg =
     (let (s, lg) = new_session (srv_dispatcher srv) (srv_credentials srv) (srv_auth_time srv) w lg
      in (srv\<lparr>accepting := accepting srv @ [s]\<rparr>, lg))"

text \<open>\<^verbatim>\<open>new_session->start()\<close> on a session of the server.\<close>

definition start_session :: "world \<Rightarrow> session \<Rightarrow> logger_ptr \<Rightarrow> session \<times> logger_ptr" where
  "start_session w s lg = (let c = session_start \<lparr>ses = s, env = w, log = lg\<rparr> in (ses c, log c))"

definition handle_accept :: "world \<Rightarrow> session \<Rightarrow> string option \<Rightarrow> server \<Rightarrow> logger_ptr \<Rightarrow> server \<times> logger_ptr" where
  "handle_accept w s error srv lg =
     (let (srv, lg) =
        (if error = None
         then (let (s, lg) = start_session w s lg in (srv\<lparr>started := started srv @ [s]\<rparr>, lg))
         else (srv, lg))
      in start_accept w srv lg)"

text \<open>
  The constructor: the acceptor on the port as an unsigned number, then the dispatcher; a first
  session object is created only to be passed to \<^verbatim>\<open>start_accept\<close>, which ignores it.
  \<open>bind\<close> gives the message of the exception when the acceptor cannot be opened.
\<close>

datatype construction =
    Constructed server logger_ptr
  | Throws string

definition new_server ::
  "(nat \<Rightarrow> string option) \<Rightarrow> 16 word \<Rightarrow> NginxConfig \<Rightarrow> credentials \<Rightarrow> 16 word \<Rightarrow> world \<Rightarrow> logger_ptr \<Rightarrow> construction res" where
  "new_server bind port config creds at w lg =
     (case bind (unat port) of
        Some msg \<Rightarrow> Inr (Throws msg)
      | None \<Rightarrow>
          bind_res (RequestHandlerDispatcher config lg) (\<lambda>(disp, lg).
            let (m_session, lg) = new_session disp creds at w lg;
                (srv, lg) = start_accept w
                  \<lparr>acceptor_port = unat port, srv_dispatcher = disp, srv_credentials = creds, srv_auth_time = at,
                    accepting = [], started = []\<rparr> lg
            in Inr (Constructed srv lg)))"

section \<open>Sessions of a server\<close>

text \<open>A session of this server, created no later than now.\<close>

definition session_of :: "server \<Rightarrow> int \<Rightarrow> session \<Rightarrow> bool" where
  "session_of srv now s \<longleftrightarrow> dispatcher s = srv_dispatcher srv \<and> credentials s = srv_credentials srv \<and>
     auth_time s = srv_auth_time srv \<and> last_auth_time s \<le> now \<and> buffer s = []"

definition server_inv :: "server \<Rightarrow> int \<Rightarrow> bool" where
  "server_inv srv now \<longleftrightarrow>
     (\<exists>s. accepting srv = [s] \<and> session_of srv now s \<and> pending s = []) \<and>
     (\<forall>s\<in>set (started srv). session_of srv now s \<and> pending s = [Async_Read])"

lemma start_accept_inv:
  assumes "accepting srv = []" and "\<forall>s\<in>set (started srv). session_of srv (clock w) s \<and> pending s = [Async_Read]"
    and "start_accept w srv lg = (srv', lg')"
  shows "server_inv srv' (clock w)"
  using assms by (auto simp: start_accept_def new_session_def server_inv_def session_of_def Let_def)

lemma new_server_inv:
  assumes "new_server bind port config creds at w lg = Inr (Constructed srv lg')"
  shows "server_inv srv (clock w) \<and> acceptor_port srv = unat port \<and> srv_credentials srv = creds \<and> srv_auth_time srv = at \<and>
    (\<exists>lg1. RequestHandlerDispatcher config lg = Inr (srv_dispatcher srv, lg1))"
proof -
  obtain disp lg1 where disp: "RequestHandlerDispatcher config lg = Inr (disp, lg1)"
      "start_accept w \<lparr>acceptor_port = unat port, srv_dispatcher = disp, srv_credentials = creds, srv_auth_time = at,
         accepting = [], started = []\<rparr> (snd (new_session disp creds at w lg1)) = (srv, lg')"
    using assms by (auto simp: new_server_def bind_res_eq_Inr_iff Let_def case_prod_beta prod_eq_iff split: option.splits)
  then have "server_inv srv (clock w)" by (intro start_accept_inv [OF _ _ disp(2)]) simp_all
  with disp show ?thesis by (auto simp: start_accept_def Let_def case_prod_beta)
qed

lemma new_server_constructed:
  assumes "bind (unat port) = None" and "RequestHandlerDispatcher config lg = Inr (disp, lg1)"
  shows "\<exists>srv lg'. new_server bind port config creds at w lg = Inr (Constructed srv lg') \<and> srv_dispatcher srv = disp \<and>
    acceptor_port srv = unat port \<and> srv_credentials srv = creds \<and> srv_auth_time srv = at"
proof -
  let ?srv = "\<lparr>acceptor_port = unat port, srv_dispatcher = disp, srv_credentials = creds, srv_auth_time = at, accepting = [], started = []\<rparr>"
  obtain srv lg' where srv: "start_accept w ?srv (snd (new_session disp creds at w lg1)) = (srv, lg')" by (metis surj_pair)
  then have "new_server bind port config creds at w lg = Inr (Constructed srv lg')"
    unfolding new_server_def assms by (simp add: case_prod_beta Let_def)
  moreover have "srv_dispatcher srv = disp" "acceptor_port srv = unat port" "srv_credentials srv = creds" "srv_auth_time srv = at"
    using srv by (auto simp: start_accept_def Let_def case_prod_beta)
  ultimately show ?thesis by blast
qed

end
