(* ===== verification/Server_Main.thy ===== *)
theory Server_Main
  imports Server
begin

text \<open>
  \<^verbatim>\<open>main\<close> of \<^verbatim>\<open>src/server_main.cc\<close> and the file variant of
  \<^verbatim>\<open>NginxConfigParser::Parse\<close>: from the command line to the running server, or an
  exit code.
\<close>

section \<open>The program\<close>

definition Parse_file :: "file_system \<Rightarrow> string \<Rightarrow> NginxConfig \<Rightarrow> (bool \<times> NginxConfig) res" where
  "Parse_file fs file_name config =
     (case ifstream_read fs file_name of
        None \<Rightarrow> Inr (False, config)
      | Some config_file \<Rightarrow> Parse config_file config)"

text \<open>
  The outcome of \<^verbatim>\<open>main\<close>: it exits, or it has entered
  \<^verbatim>\<open>io_service.run()\<close>, which does not return while an accept is in flight.
\<close>

datatype outcome =
    Exit int logger_ptr
  | Serving server logger_ptr

definition signalHandler :: "logger_ptr \<Rightarrow> outcome" where
  "signalHandler lg = Exit 1 (logSig (getLogger lg))"

text \<open>
  \<^verbatim>\<open>auth_time\<close> is a \<^verbatim>\<open>short\<close>: the assignment keeps the low 16 bits, and
  the comparison with -1 and the log see the signed value. The port is cast the same way.
\<close>

definition main_serve :: "(nat \<Rightarrow> string option) \<Rightarrow> int \<Rightarrow> 16 word \<Rightarrow> NginxConfig \<Rightarrow> world \<Rightarrow> logger_ptr \<Rightarrow> outcome res" where
  "main_serve bind port at config w lg =
     bind_res (get_credentials config) (\<lambda>creds.
     bind_res (new_server bind (word_of_int port) config creds at w lg) (\<lambda>con.
     case con of
       Throws msg \<Rightarrow> Inr (Exit 0 (logErrorFile (''Exception: '' @ msg) lg))
     | Constructed srv lg \<Rightarrow>
         (let lg = logServerInitialization lg;
              lg = logTraceFile (''Starting server on port '' @ int_to_string port) lg;
              lg = logTraceFile (''Authorization timeout: '' @ int_to_string (sint at) @ '' seconds'') lg
          in Inr (Serving srv lg))))"

definition main_auth_time :: "(nat \<Rightarrow> string option) \<Rightarrow> int \<Rightarrow> NginxConfig \<Rightarrow> world \<Rightarrow> logger_ptr \<Rightarrow> outcome res" where
  "main_auth_time bind port config w lg =
     (let lg = logTraceFile ''Checking auth time ...'' lg in
      bind_res (get_auth_time config) (\<lambda>t.
      let at = (word_of_int t :: 16 word) in
      if sint at = -1 then Inr (Exit (-1) (logErrorFile ''Invalid Auth Time'' lg))
      else main_serve bind port at config w (logTraceFile ''Auth Time Retrieved!'' lg)))"

definition main_port :: "(nat \<Rightarrow> string option) \<Rightarrow> NginxConfig \<Rightarrow> world \<Rightarrow> logger_ptr \<Rightarrow> outcome res" where
  "main_port bind config w lg =
     (let lg = logTraceFile ''Checking port ...'' lg in
      bind_res (get_config_port config) (\<lambda>port.
      if port = -1 then Inr (Exit (-1) (logErrorFile ''Invalid Port'' lg))
      else main_auth_time bind port config w (logTraceFile ''Port Retrieved!'' lg)))"

definition server_main :: "(nat \<Rightarrow> string option) \<Rightarrow> string list \<Rightarrow> world \<Rightarrow> logger_ptr \<Rightarrow> outcome res" where
  "server_main bind argv w lg =
     (let lg = getLogger lg in
      if length argv \<noteq> 2 then Inr (Exit 1 (logErrorFile ''Wrong usage port is needed'' lg))
      else
        let lg = logTraceFile ''Parsing config file ...'' lg in
        bind_res (Parse_file (disk w) (argv ! 1) (NginxConfig [])) (\<lambda>(ok, config).
        if \<not> ok then Inr (Exit (-1) (logErrorFile ''Unable to parse config file'' lg))
        else main_port bind config w (logTraceFile ''Parsed!'' lg)))"

section \<open>Numbers that become a short\<close>

lemma unat_port: "0 \<le> p \<Longrightarrow> p \<le> 65535 \<Longrightarrow> unat (word_of_int p :: 16 word) = nat p"
  by (simp add: unat_eq_nat_uint uint_word_of_int)

lemma sint_short:
  assumes "-1 \<le> t" and "t \<le> 65535"
  shows "sint (word_of_int t :: 16 word) = (if t < 32768 then t else t - 65536)"
proof -
  have "sint (word_of_int t :: 16 word) = (t + 32768) mod 65536 - 32768"
    by (simp add: sint_sbintrunc' signed_take_bit_eq_take_bit_shift take_bit_eq_mod)
  moreover have "(t + 32768) mod 65536 = (if t < 32768 then t + 32768 else t + 32768 - 65536)"
  proof (cases "t < 32768")
    case False
    then have "(t + 32768) mod 65536 = (t + 32768 - 65536) mod 65536" by (metis mod_diff_right_eq mod_self diff_zero)
    with False assms show ?thesis by simp
  qed (use assms in simp)
  ultimately show ?thesis by simp
qed

section \<open>Properties\<close>

text \<open>What a run of \<^verbatim>\<open>main\<close> that serves has gone through.\<close>

lemma main_serve_Serving:
  assumes "main_serve bind port at config w lg = Inr (Serving srv lg')"
  shows "\<exists>creds lg2. get_credentials config = Inr creds \<and>
    new_server bind (word_of_int port) config creds at w lg = Inr (Constructed srv lg2)"
proof -
  obtain creds con where "get_credentials config = Inr creds" "new_server bind (word_of_int port) config creds at w lg = Inr con"
      "(case con of
         Throws msg \<Rightarrow> Inr (Exit 0 (logErrorFile (''Exception: '' @ msg) lg))
       | Constructed srv lg \<Rightarrow>
           (let lg = logServerInitialization lg;
                lg = logTraceFile (''Starting server on port '' @ int_to_string port) lg;
                lg = logTraceFile (''Authorization timeout: '' @ int_to_string (sint at) @ '' seconds'') lg
            in Inr (Serving srv lg))) = (Inr (Serving srv lg') :: outcome res)"
    using assms unfolding main_serve_def bind_res_eq_Inr_iff by blast
  then show ?thesis by (cases con) (auto simp: Let_def)
qed

lemma main_serve_Exit:
  assumes "main_serve bind port at config w lg = Inr (Exit n lg')"
  shows "n = 0 \<and> (\<exists>msg. bind (unat (word_of_int port :: 16 word)) = Some msg)"
proof -
  obtain creds con where con: "new_server bind (word_of_int port) config creds at w lg = Inr con"
      "(case con of
         Throws msg \<Rightarrow> Inr (Exit 0 (logErrorFile (''Exception: '' @ msg) lg))
       | Constructed srv lg \<Rightarrow>
           (let lg = logServerInitialization lg;
                lg = logTraceFile (''Starting server on port '' @ int_to_string port) lg;
                lg = logTraceFile (''Authorization timeout: '' @ int_to_string (sint at) @ '' seconds'') lg
            in Inr (Serving srv lg))) = (Inr (Exit n lg') :: outcome res)"
    using assms unfolding main_serve_def bind_res_eq_Inr_iff by blast
  then have "n = 0" "\<exists>msg. con = Throws msg" by (cases con; auto simp: Let_def)+
  moreover have "bind (unat (word_of_int port :: 16 word)) \<noteq> None" if "con = Throws msg" for msg
    using con(1) that by (cases "bind (unat (word_of_int port :: 16 word))")
      (auto simp: new_server_def bind_res_eq_Inr_iff Let_def case_prod_beta)
  ultimately show ?thesis by blast
qed

lemma main_auth_time_Serving:
  assumes "main_auth_time bind port config w lg = Inr (Serving srv lg')"
  shows "\<exists>t lg1. get_auth_time config = Inr t \<and> sint (word_of_int t :: 16 word) \<noteq> -1 \<and>
    main_serve bind port (word_of_int t) config w lg1 = Inr (Serving srv lg')"
  using assms by (auto simp: main_auth_time_def Let_def bind_res_eq_Inr_iff split: if_splits)

lemma main_port_Serving:
  assumes "main_port bind config w lg = Inr (Serving srv lg')"
  shows "\<exists>port lg1. get_config_port config = Inr port \<and> port \<noteq> -1 \<and> main_auth_time bind port config w lg1 = Inr (Serving srv lg')"
  using assms by (auto simp: main_port_def Let_def bind_res_eq_Inr_iff split: if_splits)

lemma server_main_Serving:
  assumes "server_main bind argv w lg = Inr (Serving srv lg')"
  shows "\<exists>config lg1. length argv = 2 \<and> Parse_file (disk w) (argv ! 1) (NginxConfig []) = Inr (True, config) \<and>
    main_port bind config w lg1 = Inr (Serving srv lg')"
  using assms by (auto simp: server_main_def Let_def bind_res_eq_Inr_iff split: if_splits)

lemma serving_auth_time:
  assumes "server_main bind argv w lg = Inr (Serving srv lg')"
    and "Parse_file (disk w) (argv ! 1) (NginxConfig []) = Inr (True, config)" and "get_auth_time config = Inr t"
  shows "sint (srv_auth_time srv) = (if t < 32768 then t else t - 65536)"
proof -
  obtain port creds lg1 lg2 where "new_server bind (word_of_int port) config creds (word_of_int t) w lg1 = Inr (Constructed srv lg2)"
    using assms main_serve_Serving main_auth_time_Serving main_port_Serving server_main_Serving
    by (metis prod.inject sum.inject(2))
  from new_server_inv [OF this] have "srv_auth_time srv = word_of_int t" by blast
  moreover have "-1 \<le> t" "t \<le> 65535"
    using get_number_range(1) [of "''timer''" config t] assms(3) by (auto simp: get_auth_time_def in_number_range_def)
  ultimately show ?thesis using sint_short by simp
qed

lemma Parse_file_wf:
  assumes "Parse_file fs f (NginxConfig []) = Inr (True, config)"
  shows "wf_config config"
  using assms Parse_sound by (auto simp: Parse_file_def split: option.splits)

text \<open>
  C27. When \<^verbatim>\<open>main\<close> gets as far as serving, the server is the configured one: the file
  parsed, the acceptor is on exactly the configured port (the casts to \<^verbatim>\<open>short\<close> and back
  lose nothing), the credentials are those of the file, the handler table is that of the server
  block, and the authorization time is the configured number of seconds up to 32767 and the number
  minus 65536 above.
\<close>

theorem main_serves_configuration:
  assumes "server_main bind argv w lg = Inr (Serving srv lg')"
  shows "\<exists>config port t. length argv = 2 \<and> Parse_file (disk w) (argv ! 1) (NginxConfig []) = Inr (True, config) \<and>
    get_config_port config = Inr port \<and> 0 \<le> port \<and> port \<le> 65535 \<and> acceptor_port srv = nat port \<and>
    get_credentials config = Inr (srv_credentials srv) \<and>
    map_of (srv_dispatcher srv) = [''/'' \<mapsto> RequestHandler404] ++ registered config \<and>
    get_auth_time config = Inr t \<and> 0 \<le> t \<and> t < 65535 \<and> sint (srv_auth_time srv) = (if t < 32768 then t else t - 65536) \<and>
    server_inv srv (clock w)"
proof -
  obtain config port t creds lg1 lg2 where m: "length argv = 2" "Parse_file (disk w) (argv ! 1) (NginxConfig []) = Inr (True, config)"
    "get_config_port config = Inr port" "port \<noteq> -1" "get_auth_time config = Inr t" "sint (word_of_int t :: 16 word) \<noteq> -1"
    "get_credentials config = Inr creds"
    "new_server bind (word_of_int port) config creds (word_of_int t) w lg1 = Inr (Constructed srv lg2)"
    using assms main_serve_Serving main_auth_time_Serving main_port_Serving server_main_Serving by metis
  have p: "0 \<le> port" "port \<le> 65535" and t: "-1 \<le> t" "t \<le> 65535"
    using get_number_range(1) [of "''port''" config port] get_number_range(1) [of "''timer''" config t] m(3-5)
    by (auto simp: get_config_port_def get_auth_time_def in_number_range_def)
  have "0 \<le> t" "t < 65535" using m(6) t sint_short [OF t] by (auto split: if_splits)
  moreover from new_server_inv [OF m(8)] obtain lg3 where
    "server_inv srv (clock w)" "acceptor_port srv = nat port" "srv_credentials srv = creds" "srv_auth_time srv = word_of_int t"
    "RequestHandlerDispatcher config lg1 = Inr (srv_dispatcher srv, lg3)"
    using unat_port [OF p] by auto
  moreover from this have "map_of (srv_dispatcher srv) = [''/'' \<mapsto> RequestHandler404] ++ registered config"
    using RequestHandlerDispatcher_Inr(2) [OF Parse_file_wf [OF m(2)]] by blast
  ultimately show ?thesis using m(1-3,5,7) p t sint_short [OF t] by auto
qed

text \<open>The text of \<^verbatim>\<open>src/example_config3.conf\<close>.\<close>

definition example_config3_text :: string where
  "example_config3_text = concat (map (\<lambda>l. l @ [CHR 0x0A])
    [''server {'',
     ''    port 80;'',
     ''    timer 1800;'',
     ''    credentials {'',
     ''        tariq:123;'',
     ''        milly:456;'',
     ''        shravan:789;'',
     ''        umer:101;'',
     ''    }'',
     ''    location /static/ StaticHandler {'',
     ''        root /data;'',
     ''    }'',
     ''    location /echo/ EchoHandler {   '',
     ''    }'',
     ''    location /api/ APIHandler {'',
     ''        root ./api_storage/;'',
     ''    }'',
     ''    location /health HealthHandler {'',
     ''    }'',
     ''    location /sleep SleepHandler {'',
     ''    }'']) @ ''}''"

lemma Parse_example_config3: "Parse example_config3_text (NginxConfig []) = Inr (True, example_config3)"
  by code_simp

lemma example_config3_credentials:
  "get_credentials example_config3 = Inr [''tariq'' \<mapsto> ''123'', ''milly'' \<mapsto> ''456'', ''shravan'' \<mapsto> ''789'', ''umer'' \<mapsto> ''101'']"
  by (simp add: example_config3_def add_credential_def)

lemma example_config3_dispatches:
  "\<exists>hs lg'. RequestHandlerDispatcher example_config3 lg = Inr (hs, lg') \<and> map_of hs = map_of example_handlers"
proof -
  obtain n hs lg' where "initRequestHandlers example_config3 [] lg = Inr (n, hs, lg')"
      "map_of hs = [''/'' \<mapsto> RequestHandler404] ++ registered example_config3"
    using initRequestHandlers_ok [OF example_config3_wf example_config3_registration] by blast
  moreover have "map_of example_handlers = [''/'' \<mapsto> RequestHandler404] ++ registered example_config3"
    by (rule RequestHandlerDispatcher_Inr(2) [OF example_config3_wf example_config3_dispatcher])
  ultimately show ?thesis by (simp add: RequestHandlerDispatcher_def)
qed

definition deployed_credentials :: credentials where
  "deployed_credentials = [''tariq'' \<mapsto> ''123'', ''milly'' \<mapsto> ''456'', ''shravan'' \<mapsto> ''789'', ''umer'' \<mapsto> ''101'']"

lemma deployed_main_serve:
  assumes "bind 80 = None"
  shows "\<exists>srv lg'. main_serve bind 80 (word_of_int 1800) example_config3 w lg = Inr (Serving srv lg') \<and> acceptor_port srv = 80 \<and>
    srv_auth_time srv = word_of_int 1800 \<and> srv_credentials srv = deployed_credentials \<and>
    map_of (srv_dispatcher srv) = map_of example_handlers"
proof -
  have port: "unat (word_of_int 80 :: 16 word) = 80" using unat_port [of 80] by simp
  have "\<exists>srv lg'. new_server bind (word_of_int 80) example_config3 deployed_credentials (word_of_int 1800) w lg = Inr (Constructed srv lg') \<and>
      acceptor_port srv = 80 \<and> srv_credentials srv = deployed_credentials \<and> srv_auth_time srv = word_of_int 1800 \<and>
      map_of (srv_dispatcher srv) = map_of example_handlers"
    using example_config3_dispatches [of lg] new_server_constructed [of bind "word_of_int 80" example_config3 lg] assms
    unfolding port by metis
  then show ?thesis
    unfolding main_serve_def example_config3_credentials deployed_credentials_def [symmetric]
    by (elim exE conjE) (simp add: Let_def)
qed

lemma deployed_server_main:
  assumes "ifstream_read (disk w) f = Some example_config3_text"
  shows "\<exists>lg1. server_main bind [prog, f] w lg = main_serve bind 80 (word_of_int 1800) example_config3 w lg1"
proof -
  have "Parse_file (disk w) f (NginxConfig []) = Inr (True, example_config3)"
    by (simp add: Parse_file_def assms Parse_example_config3)
  moreover have "sint (word_of_int 1800 :: 16 word) = 1800" using sint_short [of 1800] by simp
  ultimately show ?thesis
    by (simp add: server_main_def main_port_def main_auth_time_def Let_def example_config3_port example_config3_auth_time)
       (rule exI, rule refl)
qed

text \<open>
  The shipped configuration comes up: with the text of \<^verbatim>\<open>example_config3.conf\<close> in the
  file named on the command line and port 80 free, \<^verbatim>\<open>main\<close> parses it and serves on port
  80 with a session time of 1800 seconds, the four users, and the static, echo, API, health, sleep
  and 404 handlers at their paths.
\<close>

lemma deployed_configuration_serves:
  assumes "ifstream_read (disk w) f = Some example_config3_text" and "bind 80 = None"
  shows "\<exists>srv lg'. server_main bind [prog, f] w lg = Inr (Serving srv lg') \<and> acceptor_port srv = 80 \<and>
    sint (srv_auth_time srv) = 1800 \<and>
    srv_credentials srv = [''tariq'' \<mapsto> ''123'', ''milly'' \<mapsto> ''456'', ''shravan'' \<mapsto> ''789'', ''umer'' \<mapsto> ''101''] \<and>
    map_of (srv_dispatcher srv) = map_of example_handlers"
proof -
  obtain lg1 where "server_main bind [prog, f] w lg = main_serve bind 80 (word_of_int 1800) example_config3 w lg1"
    using deployed_server_main [of w f bind prog lg] assms(1) by blast
  moreover have "sint (word_of_int 1800 :: 16 word) = 1800" using sint_short [of 1800] by simp
  ultimately show ?thesis
    using deployed_main_serve [of bind w lg1] assms(2) unfolding deployed_credentials_def by metis
qed

definition deployed_world :: world where
  "deployed_world = \<lparr>disk = \<lparr>nodes = [[] \<mapsto> Dir, [''c''] \<mapsto> File True True example_config3_text], cwd = []\<rparr>, clock = 0\<rparr>"

lemma deployed_world_read: "ifstream_read (disk deployed_world) ''c'' = Some example_config3_text"
  by (simp add: deployed_world_def ifstream_read_def stat_def resolve_def path_start_def)

theorem main_serves_configuration_witness:
  "\<exists>srv lg' config port t. server_main (\<lambda>_. None) [''server'', ''c''] deployed_world None = Inr (Serving srv lg') \<and>
     Parse_file (disk deployed_world) ''c'' (NginxConfig []) = Inr (True, config) \<and> acceptor_port srv = nat port \<and>
     get_credentials config = Inr (srv_credentials srv) \<and> get_auth_time config = Inr t"
proof -
  obtain srv lg' where s: "server_main (\<lambda>_. None) [''server'', ''c''] deployed_world None = Inr (Serving srv lg')"
    using deployed_server_main [OF deployed_world_read] deployed_main_serve [of "\<lambda>_. None"] by metis
  from main_serves_configuration [OF this] s show ?thesis by auto
qed

lemma main_auth_time_Exit:
  assumes "main_auth_time bind port config w lg = Inr (Exit n lg')" and "0 \<le> port" and "port \<le> 65535"
  shows "n = -1 \<and> (get_auth_time config = Inr (-1) \<or> get_auth_time config = Inr 65535) \<or>
    n = 0 \<and> (\<exists>msg. bind (nat port) = Some msg)"
proof -
  obtain t lg1 where t: "get_auth_time config = Inr t"
      "sint (word_of_int t :: 16 word) \<noteq> -1 \<longrightarrow> main_serve bind port (word_of_int t) config w lg1 = Inr (Exit n lg')"
      "sint (word_of_int t :: 16 word) = -1 \<longrightarrow> n = -1"
    using assms(1) by (auto simp: main_auth_time_def Let_def bind_res_eq_Inr_iff split: if_splits)
  have range: "-1 \<le> t" "t \<le> 65535"
    using get_number_range(1) [of "''timer''" config t] t(1) by (auto simp: get_auth_time_def in_number_range_def)
  show ?thesis
  proof (cases "sint (word_of_int t :: 16 word) = -1")
    case True
    then have "t = -1 \<or> t = 65535" using sint_short [OF range] by (auto split: if_splits)
    then show ?thesis using True t(1,3) by auto
  next
    case False
    then show ?thesis using t(2) main_serve_Exit [of bind port "word_of_int t" config w lg1 n lg'] unat_port [OF assms(2,3)] by auto
  qed
qed

lemma main_port_Exit:
  assumes "main_port bind config w lg = Inr (Exit n lg')"
  shows "n = -1 \<and> (get_config_port config = Inr (-1) \<or> get_auth_time config = Inr (-1) \<or> get_auth_time config = Inr 65535) \<or>
    n = 0 \<and> (\<exists>port msg. get_config_port config = Inr port \<and> bind (nat port) = Some msg)"
proof -
  obtain port lg1 where port: "get_config_port config = Inr port"
      "port \<noteq> -1 \<longrightarrow> main_auth_time bind port config w lg1 = Inr (Exit n lg')" "port = -1 \<longrightarrow> n = -1"
    using assms by (auto simp: main_port_def Let_def bind_res_eq_Inr_iff split: if_splits)
  show ?thesis
  proof (cases "port = -1")
    case False
    then have "0 \<le> port" "port \<le> 65535"
      using get_number_range(1) [of "''port''" config port] port(1) by (auto simp: get_config_port_def in_number_range_def)
    then show ?thesis using main_auth_time_Exit [of bind port config w lg1 n lg'] port False by auto
  qed (use port in auto)
qed




lemma server_main_succeeds:
  assumes "Parse_file (disk w) f (NginxConfig []) = Inr (True, config)" and "get_config_port config = Inr port" and "port \<noteq> -1"
    and "get_auth_time config = Inr t" and "t \<noteq> -1" and "t \<noteq> 65535" and "get_credentials config = Inr creds"
    and "bind (nat port) = None" and "registration_ok config"
  shows "\<exists>srv lg'. server_main bind [prog, f] w lg = Inr (Serving srv lg')"
proof -
  have range: "0 \<le> port" "port \<le> 65535" "-1 \<le> t" "t \<le> 65535"
    using get_number_range(1) [of "''port''" config port] get_number_range(1) [of "''timer''" config t] assms(2-4)
    by (auto simp: get_config_port_def get_auth_time_def in_number_range_def)
  have time: "sint (word_of_int t :: 16 word) \<noteq> -1" using sint_short [OF range(3,4)] assms(5,6) by auto
  have serve: "\<exists>srv lg'. main_serve bind port (word_of_int t) config w lg1 = Inr (Serving srv lg')" for lg1
  proof -
    obtain hs lg2 where "RequestHandlerDispatcher config lg1 = Inr (hs, lg2)"
      using initRequestHandlers_ok [OF Parse_file_wf [OF assms(1)] assms(9), of lg1] by (auto simp: RequestHandlerDispatcher_def)
    moreover have "bind (unat (word_of_int port :: 16 word)) = None" using unat_port [OF range(1,2)] assms(8) by simp
    ultimately obtain srv lg3 where "new_server bind (word_of_int port) config creds (word_of_int t) w lg1 = Inr (Constructed srv lg3)"
      using new_server_constructed by metis
    then show ?thesis by (simp add: main_serve_def assms(7) Let_def)
  qed
  have "\<exists>lg1. server_main bind [prog, f] w lg = main_serve bind port (word_of_int t) config w lg1"
    using assms(1-4) time by (simp add: server_main_def main_port_def main_auth_time_def Let_def) (rule exI, rule refl)
  with serve show ?thesis by metis
qed

text \<open>
  C22. When the server comes up: given a file that parses, \<^verbatim>\<open>main\<close> reaches
  \<^verbatim>\<open>io_service.run()\<close> exactly when there is a valid port and a timer other than 65535, the
  search for credentials does not meet a credentials statement without block, every location in the
  server block is complete, and the acceptor can be opened.
\<close>

theorem main_serves_iff:
  assumes "Parse_file (disk w) f (NginxConfig []) = Inr (True, config)"
  shows "(\<exists>srv lg'. server_main bind [prog, f] w lg = Inr (Serving srv lg')) \<longleftrightarrow>
    (\<exists>port t creds. get_config_port config = Inr port \<and> port \<noteq> -1 \<and> get_auth_time config = Inr t \<and> t \<noteq> -1 \<and> t \<noteq> 65535 \<and>
      get_credentials config = Inr creds \<and> bind (nat port) = None \<and> registration_ok config)"
proof
  assume "\<exists>srv lg'. server_main bind [prog, f] w lg = Inr (Serving srv lg')"
  then obtain srv lg' lg0 where "main_port bind config w lg0 = Inr (Serving srv lg')"
    using server_main_Serving [of bind "[prog, f]" w lg] assms by auto
  then obtain port t creds lg1 lg2 where m: "get_config_port config = Inr port" "port \<noteq> -1" "get_auth_time config = Inr t"
      "sint (word_of_int t :: 16 word) \<noteq> -1" "get_credentials config = Inr creds"
      "new_server bind (word_of_int port) config creds (word_of_int t) w lg1 = Inr (Constructed srv lg2)"
    using main_serve_Serving main_auth_time_Serving main_port_Serving by metis
  have range: "0 \<le> port" "port \<le> 65535" "-1 \<le> t" "t \<le> 65535"
    using get_number_range(1) [of "''port''" config port] get_number_range(1) [of "''timer''" config t] m(1-3)
    by (auto simp: get_config_port_def get_auth_time_def in_number_range_def)
  have "t \<noteq> -1" "t \<noteq> 65535" using m(4) sint_short [OF range(3,4)] by auto
  moreover have "bind (nat port) = None"
    using m(6) unat_port [OF range(1,2)] by (auto simp: new_server_def split: option.splits)
  moreover have "registration_ok config"
    using new_server_inv [OF m(6)] initRequestHandlers_bad [OF Parse_file_wf [OF assms], of "[]" lg1]
    by (cases "registration_ok config") (auto simp: RequestHandlerDispatcher_def)
  ultimately show "\<exists>port t creds. get_config_port config = Inr port \<and> port \<noteq> -1 \<and> get_auth_time config = Inr t \<and> t \<noteq> -1 \<and> t \<noteq> 65535 \<and>
      get_credentials config = Inr creds \<and> bind (nat port) = None \<and> registration_ok config"
    using m by blast
next
  assume "\<exists>port t creds. get_config_port config = Inr port \<and> port \<noteq> -1 \<and> get_auth_time config = Inr t \<and> t \<noteq> -1 \<and> t \<noteq> 65535 \<and>
      get_credentials config = Inr creds \<and> bind (nat port) = None \<and> registration_ok config"
  then show "\<exists>srv lg'. server_main bind [prog, f] w lg = Inr (Serving srv lg')"
    using server_main_succeeds [OF assms] by blast
qed

lemma deployed_Parse_file: "Parse_file (disk deployed_world) ''c'' (NginxConfig []) = Inr (True, example_config3)"
  by (simp add: Parse_file_def deployed_world_read Parse_example_config3)

theorem main_serves_iff_witness:
  "(\<exists>srv lg'. server_main (\<lambda>_. None) [''server'', ''c''] deployed_world None = Inr (Serving srv lg')) \<and>
   \<not> (\<exists>srv lg'. server_main (\<lambda>_. Some ''in use'') [''server'', ''c''] deployed_world None = Inr (Serving srv lg'))"
proof -
  note c = example_config3_port example_config3_auth_time example_config3_credentials example_config3_registration
  show ?thesis
    unfolding main_serves_iff [OF deployed_Parse_file] by (simp add: c)
qed

definition large_timer_text :: string where
  "large_timer_text = ''server { port 80; timer 40000; credentials { a:b; } }''"

definition large_timer_config :: NginxConfig where
  "large_timer_config = NginxConfig
     [NginxConfigStatement [''server''] (Some (NginxConfig
       [NginxConfigStatement [''port'', ''80''] None, NginxConfigStatement [''timer'', ''40000''] None,
        NginxConfigStatement [''credentials''] (Some (NginxConfig [NginxConfigStatement [''a:b''] None]))]))]"

lemma large_timer_facts:
  "Parse large_timer_text (NginxConfig []) = Inr (True, large_timer_config)"
  "get_config_port large_timer_config = Inr 80" "get_auth_time large_timer_config = Inr 40000"
proof -
  show "Parse large_timer_text (NginxConfig []) = Inr (True, large_timer_config)" by code_simp
  show "get_config_port large_timer_config = Inr 80" by code_simp
  have "int_to_string 40000 = ''40000''"
    by (simp add: int_to_string_def nat_to_string.simps digit_char_def char_of_def bit_simps)
  then have "atoi ''40000'' = Inr 40000"
    using atoi_int_to_string [of 40000] by (simp add: INT_MIN_def INT_MAX_def)
  then show "get_auth_time large_timer_config = Inr 40000"
    by (simp add: get_auth_time_def large_timer_config_def)
qed

definition large_timer_world :: world where
  "large_timer_world = \<lparr>disk = \<lparr>nodes = [[] \<mapsto> Dir, [''c''] \<mapsto> File True True large_timer_text], cwd = []\<rparr>, clock = 0\<rparr>"

lemma large_timer_serves:
  "\<exists>srv lg'. server_main (\<lambda>_. None) [''server'', ''c''] large_timer_world None = Inr (Serving srv lg')"
  "Parse_file (disk large_timer_world) ''c'' (NginxConfig []) = Inr (True, large_timer_config)"
proof -
  show p: "Parse_file (disk large_timer_world) ''c'' (NginxConfig []) = Inr (True, large_timer_config)"
    by (simp add: Parse_file_def large_timer_world_def ifstream_read_def stat_def resolve_def path_start_def large_timer_facts(1))
  have "registration_ok large_timer_config"
    by (simp add: registration_ok_def large_timer_config_def locations_def is_location_def)
  moreover have "\<exists>creds. get_credentials large_timer_config = Inr creds"
    by (simp add: large_timer_config_def)
  ultimately show "\<exists>srv lg'. server_main (\<lambda>_. None) [''server'', ''c''] large_timer_world None = Inr (Serving srv lg')"
    using server_main_succeeds [OF p large_timer_facts(2) _ large_timer_facts(3)] by auto
qed


end
