(* ===== verification/Event_Loop.thy ===== *)
theory Event_Loop
  imports Server_Main
begin

text \<open>
  \<^verbatim>\<open>io_service.run()\<close> at the end of \<^verbatim>\<open>main\<close> in
  \<^verbatim>\<open>src/server_main.cc\<close>: one thread runs the completion handlers of the server and of all
  its sessions one after the other, in the order the operating system reports completions, until a
  signal or a fault ends the process. The state of the process and one event are executable; the
  runs are an inductive relation that records the events.
\<close>

section \<open>The process\<close>

text \<open>
  Sessions that have been started are numbered in the order of their connections.
  \<^verbatim>\<open>run()\<close> returns when nothing is in flight any more, and \<^verbatim>\<open>main\<close> then returns 0.
\<close>

datatype process =
    Running server world logger_ptr
  | Exited int logger_ptr
  | Crashed fault

datatype event =
    Accept_Done "string option"
  | Read_Done nat "string + string"
  | Write_Done nat "string option"
  | Time_Passes int
  | Out_Of_Work
  | Interrupt

definition connection_of :: "server \<Rightarrow> nat \<Rightarrow> world \<Rightarrow> logger_ptr \<Rightarrow> connection" where
  "connection_of srv i w lg = \<lparr>ses = started srv ! i, env = w, log = lg\<rparr>"

definition resume :: "server \<Rightarrow> nat \<Rightarrow> connection \<Rightarrow> process" where
  "resume srv i c = Running (srv\<lparr>started := (started srv)[i := ses c]\<rparr>) (env c) (log c)"

definition waits_for :: "server \<Rightarrow> nat \<Rightarrow> async_op \<Rightarrow> bool" where
  "waits_for srv i x \<longleftrightarrow> i < length (started srv) \<and> x \<in> set (pending (started srv ! i))"

text \<open>\<^verbatim>\<open>async_read_some\<close> on \<^verbatim>\<open>buffer_.prepare(4096)\<close> gives an error or 1 to 4096 bytes.\<close>

definition deliverable :: "string + string \<Rightarrow> bool" where
  "deliverable completion = (case completion of Inl msg \<Rightarrow> True | Inr d \<Rightarrow> 1 \<le> length d \<and> length d \<le> 4096)"

fun run_one :: "boost \<Rightarrow> event \<Rightarrow> process \<Rightarrow> process option" where
  "run_one B (Accept_Done error) (Running srv w lg) =
     (case accepting srv of
        [] \<Rightarrow> None
      | s # ss \<Rightarrow> (let (srv, lg) = handle_accept w s error (srv\<lparr>accepting := ss\<rparr>) lg in Some (Running srv w lg)))"
| "run_one B (Read_Done i completion) (Running srv w lg) =
     (if waits_for srv i Async_Read \<and> deliverable completion
      then (case handle_read_callback B completion (complete Async_Read (connection_of srv i w lg)) of
              Inl f \<Rightarrow> Some (Crashed f)
            | Inr (ret, c) \<Rightarrow> Some (resume srv i c))
      else None)"
| "run_one B (Write_Done i error) (Running srv w lg) =
     (if waits_for srv i Async_Write
      then Some (resume srv i (snd (handle_write_callback error (complete Async_Write (connection_of srv i w lg)))))
      else None)"
| "run_one B (Time_Passes t) (Running srv w lg) = (if clock w \<le> t then Some (Running srv (w\<lparr>clock := t\<rparr>) lg) else None)"
| "run_one B Out_Of_Work (Running srv w lg) =
     (if accepting srv = [] \<and> (\<forall>s\<in>set (started srv). pending s = []) then Some (Exited 0 lg) else None)"
| "run_one B Interrupt (Running srv w lg) =
     (case signalHandler lg of Exit code lg \<Rightarrow> Some (Exited code lg) | Serving srv lg \<Rightarrow> Some (Running srv w lg))"
| "run_one B e (Exited code lg) = None"
| "run_one B e (Crashed f) = None"

inductive event_loop :: "boost \<Rightarrow> process \<Rightarrow> event list \<Rightarrow> process \<Rightarrow> bool" for B p0 where
  loop_starts: "event_loop B p0 [] p0"
| loop_event: "event_loop B p0 es p \<Longrightarrow> run_one B e p = Some p' \<Longrightarrow> event_loop B p0 (es @ [e]) p'"

lemma event_loop_append:
  assumes "event_loop B p0 es p" and "event_loop B p es' p'"
  shows "event_loop B p0 (es @ es') p'"
  using assms(2)
proof induction
  case (loop_event es' p1 e p')
  from event_loop.loop_event [OF this(3,2)] show ?case by simp
qed (simp add: assms(1))

text \<open>The bytes the \<open>i\<close>-th connection has delivered.\<close>

fun bytes_on :: "nat \<Rightarrow> event \<Rightarrow> string" where
  "bytes_on i (Read_Done j (Inr d)) = (if i = j then d else [])"
| "bytes_on i e = []"

definition received_on :: "nat \<Rightarrow> event list \<Rightarrow> string" where
  "received_on i es = concat (map (bytes_on i) es)"

lemma received_on_simps [simp]: "received_on i [] = []" "received_on i (es @ [e]) = received_on i es @ bytes_on i e"
  by (simp_all add: received_on_def)

lemma connection_of_simps [simp]:
  "ses (connection_of srv i w lg) = started srv ! i" "env (connection_of srv i w lg) = w" "log (connection_of srv i w lg) = lg"
  by (simp_all add: connection_of_def)

section \<open>One event\<close>

text \<open>What an event does to a running server, by the completion handler it calls.\<close>

lemma run_one_event:
  assumes "run_one B e (Running srv w lg) = Some p'"
  obtains
    (accepted) error s ss srv' lg' where "e = Accept_Done error" "accepting srv = s # ss"
      "handle_accept w s error (srv\<lparr>accepting := ss\<rparr>) lg = (srv', lg')" "p' = Running srv' w lg'"
  | (read) i completion ret c where "e = Read_Done i completion" "waits_for srv i Async_Read" "deliverable completion"
      "handle_read_callback B completion (complete Async_Read (connection_of srv i w lg)) = Inr (ret, c)" "p' = resume srv i c"
  | (fault) i completion f where "e = Read_Done i completion" "waits_for srv i Async_Read" "deliverable completion"
      "handle_read_callback B completion (complete Async_Read (connection_of srv i w lg)) = Inl f" "p' = Crashed f"
  | (written) i error code c where "e = Write_Done i error" "waits_for srv i Async_Write"
      "handle_write_callback error (complete Async_Write (connection_of srv i w lg)) = (code, c)" "p' = resume srv i c"
  | (time) t where "e = Time_Passes t" "clock w \<le> t" "p' = Running srv (w\<lparr>clock := t\<rparr>) lg"
  | (idle) "e = Out_Of_Work" "accepting srv = []" "p' = Exited 0 lg"
  | (signal) "e = Interrupt" "p' = Exited 1 (logSig (getLogger lg))"
proof (cases e)
  case (Accept_Done error)
  then show thesis using assms accepted by (auto split: list.splits prod.splits)
next
  case (Read_Done i completion)
  then show thesis
    using assms read [of i completion] fault [of i completion]
    by (cases "handle_read_callback B completion (complete Async_Read (connection_of srv i w lg))") (auto split: if_splits)
next
  case (Write_Done i error)
  obtain code c where "handle_write_callback error (complete Async_Write (connection_of srv i w lg)) = (code, c)" by (metis surj_pair)
  then show thesis using Write_Done assms written [of i error code c] by (auto split: if_splits)
next
  case (Time_Passes t)
  then show thesis using assms time by (auto split: if_splits)
next
  case Out_Of_Work
  then show thesis using assms idle by (auto split: if_splits)
next
  case Interrupt
  then show thesis using assms signal by (auto simp: signalHandler_def)
qed

text \<open>
  Seen from the sessions: a completion on a connection is a step of its session, or a fault of the
  handler of an authorised request. Only such a request has effects outside its connection.
\<close>

lemma run_one_cases:
  assumes "run_one B e (Running srv w lg) = Some p'"
  obtains
    (accepted) error s ss srv' lg' where "e = Accept_Done error" "accepting srv = s # ss"
      "handle_accept w s error (srv\<lparr>accepting := ss\<rparr>) lg = (srv', lg')" "p' = Running srv' w lg'"
  | (session) i x c where "i < length (started srv)" "session_step B (connection_of srv i w lg) x c"
      "p' = resume srv i c" "\<And>j. j \<noteq> i \<Longrightarrow> bytes_on j e = []" "buffer (ses c) = buffer (started srv ! i) @ bytes_on i e"
      "env c = w \<or> (\<exists>req h r. e = Read_Done i (Inr (bytes_on i e)) \<and>
        handled_by B (started srv ! i) (clock w) (bytes_on i e) req h \<and> handleRequest B h req (response (started srv ! i)) w = Inr (r, env c))"
  | (fault) i req h f where "i < length (started srv)" "e = Read_Done i (Inr (bytes_on i e))" "p' = Crashed f"
      "handled_by B (started srv ! i) (clock w) (bytes_on i e) req h" "handleRequest B h req (response (started srv ! i)) w = Inl f"
  | (time) t where "e = Time_Passes t" "clock w \<le> t" "p' = Running srv (w\<lparr>clock := t\<rparr>) lg"
  | (idle) "e = Out_Of_Work" "accepting srv = []" "p' = Exited 0 lg"
  | (signal) "e = Interrupt" "p' = Exited 1 (logSig (getLogger lg))"
  using assms
proof (cases rule: run_one_event)
  case (read i completion ret c)
  then have i: "i < length (started srv)" "Async_Read \<in> set (pending (ses (connection_of srv i w lg)))" by (auto simp: waits_for_def)
  show thesis
  proof (cases completion)
    case (Inl msg)
    with read session_step.read_error [OF i(2)] have "session_step B (connection_of srv i w lg) False c" by blast
    then show thesis using session [of i False c] read i(1) read_callback_error(2,3) Inl by auto
  next
    case (Inr d)
    from session_step.read_done [OF i(2) read(4) [unfolded Inr]] obtain x where step: "session_step B (connection_of srv i w lg) x c" ..
    from read_callback_effect [OF read(4) [unfolded Inr]] session [OF i(1) step read(5)] read(1) Inr show thesis by auto
  qed
next
  case (fault i completion f)
  then obtain d where d: "completion = Inr d" using read_callback_error(1) by (cases completion) auto
  from read_callback_fault [OF fault(4) [unfolded d]] show thesis
    using that(3) [of i f] fault(1,2,5) d by (auto simp: waits_for_def)
next
  case (written i error code c)
  then have i: "i < length (started srv)" "Async_Write \<in> set (pending (ses (connection_of srv i w lg)))" by (auto simp: waits_for_def)
  from session_step.write_done [OF i(2) written(3)] handle_write_callback_ses [OF written(3)] show thesis
    using session [of i False c] i written(1,4) by simp
qed (use that in blast)+

section \<open>The invariant\<close>

definition same_config :: "server \<Rightarrow> server \<Rightarrow> bool" where
  "same_config srv0 srv \<longleftrightarrow> acceptor_port srv = acceptor_port srv0 \<and> srv_dispatcher srv = srv_dispatcher srv0 \<and>
     srv_credentials srv = srv_credentials srv0 \<and> srv_auth_time srv = srv_auth_time srv0"

text \<open>
  A session inside the loop is in a state that a session of this server reaches on its own, in the
  present world.
\<close>

definition runs_as :: "boost \<Rightarrow> server \<Rightarrow> world \<Rightarrow> session \<Rightarrow> bool" where
  "runs_as B srv0 w s \<longleftrightarrow>
     (\<exists>c0 x c. session_reaches B c0 x c \<and> ses c = s \<and> env c = w \<and> session_of srv0 (clock (env c0)) (ses c0) \<and> pending (ses c0) = [])"

definition loop_inv :: "boost \<Rightarrow> server \<Rightarrow> event list \<Rightarrow> server \<Rightarrow> world \<Rightarrow> bool" where
  "loop_inv B srv0 es srv w \<longleftrightarrow> same_config srv0 srv \<and>
     (\<exists>s. accepting srv = [s] \<and> session_of srv0 (clock w) s \<and> pending s = []) \<and>
     (\<forall>i<length (started srv). runs_as B srv0 w (started srv ! i) \<and> buffer (started srv ! i) = received_on i es) \<and>
     (\<forall>i\<ge>length (started srv). received_on i es = [])"

lemma runs_as_step:
  assumes "runs_as B srv0 w s" and "session_step B \<lparr>ses = s, env = w, log = lg\<rparr> x c'"
  shows "runs_as B srv0 (env c') (ses c')"
proof -
  obtain c0 e c where c: "session_reaches B c0 e c" "ses c = s" "env c = w" "session_of srv0 (clock (env c0)) (ses c0)" "pending (ses c0) = []"
    using assms(1) by (auto simp: runs_as_def)
  have "session_step B c False (c\<lparr>env := w, log := lg\<rparr>)" using c(3) by (intro session_step.others) simp
  moreover have "c\<lparr>env := w, log := lg\<rparr> = \<lparr>ses = s, env = w, log = lg\<rparr>" using c(2) by simp
  ultimately have "session_step B c False \<lparr>ses = s, env = w, log = lg\<rparr>" by simp
  from session_reaches.stepped [OF session_reaches.stepped [OF c(1) this] assms(2)]
  show ?thesis using c(4,5) by (auto simp: runs_as_def)
qed

lemma runs_as_later:
  assumes "runs_as B srv0 w s" and "clock w \<le> clock w'"
  shows "runs_as B srv0 w' s"
  using runs_as_step [OF assms(1) session_step.others [of "\<lparr>ses = s, env = w, log = None\<rparr>" w' B None]] assms(2) by simp

lemma runs_as_started:
  assumes "session_of srv0 (clock w) s" and "pending s = []"
  shows "runs_as B srv0 w (s\<lparr>pending := [Async_Read]\<rparr>)"
  unfolding runs_as_def
  by (intro exI conjI, rule session_reaches.started [of B "\<lparr>ses = s, env = w, log = None\<rparr>"])
     (use assms in \<open>simp_all add: session_start_def\<close>)

lemma handle_accept_eq:
  "\<exists>lg'. handle_accept w s error srv lg =
     (srv\<lparr>accepting := accepting srv @ [fst (new_session (srv_dispatcher srv) (srv_credentials srv) (srv_auth_time srv) w lg)],
        started := started srv @ (if error = None then [s\<lparr>pending := pending s @ [Async_Read]\<rparr>] else [])\<rparr>, lg')"
  by (cases error) (simp_all add: handle_accept_def start_accept_def start_session_def session_start_def new_session_def Let_def)

lemma loop_inv_accept:
  assumes inv: "loop_inv B srv0 es srv w" and s: "accepting srv = s # ss"
    and acc: "handle_accept w s error (srv\<lparr>accepting := ss\<rparr>) lg = (srv', lg')"
  shows "loop_inv B srv0 (es @ [Accept_Done error]) srv' w"
proof -
  have conf: "same_config srv0 srv" and one: "ss = []" "session_of srv0 (clock w) s" "pending s = []"
    using inv s by (auto simp: loop_inv_def)
  have srv': "srv' = srv\<lparr>accepting := [fst (new_session (srv_dispatcher srv) (srv_credentials srv) (srv_auth_time srv) w lg)],
      started := started srv @ (if error = None then [s\<lparr>pending := [Async_Read]\<rparr>] else [])\<rparr>"
    using handle_accept_eq [of w s error "srv\<lparr>accepting := ss\<rparr>" lg] acc one by auto
  have "session_of srv0 (clock w) (fst (new_session (srv_dispatcher srv) (srv_credentials srv) (srv_auth_time srv) w lg))"
    using conf by (simp add: new_session_def session_of_def same_config_def)
  moreover have "runs_as B srv0 w (s\<lparr>pending := [Async_Read]\<rparr>)" "buffer s = []"
    using runs_as_started one(2,3) by (auto simp: session_of_def)
  ultimately show ?thesis
    using inv conf by (auto simp: loop_inv_def srv' same_config_def new_session_def nth_append less_Suc_eq)
qed

lemma loop_inv_session:
  assumes inv: "loop_inv B srv0 es srv w" and i: "i < length (started srv)"
    and step: "session_step B (connection_of srv i w lg) x c"
    and bytes: "\<And>j. j \<noteq> i \<Longrightarrow> bytes_on j e = []" "buffer (ses c) = buffer (started srv ! i) @ bytes_on i e"
  shows "loop_inv B srv0 (es @ [e]) (srv\<lparr>started := (started srv)[i := ses c]\<rparr>) (env c)"
proof -
  have runs: "runs_as B srv0 w (started srv ! j)" "buffer (started srv ! j) = received_on j es" if "j < length (started srv)" for j
    using inv that by (auto simp: loop_inv_def)
  have "clock w \<le> clock (env c)" using session_step_keeps(4) [OF step] by simp
  moreover have "runs_as B srv0 (env c) (ses c)"
    using runs_as_step [OF runs(1) [OF i]] step by (simp add: connection_of_def)
  ultimately have "runs_as B srv0 (env c) ((started srv)[i := ses c] ! j) \<and> buffer ((started srv)[i := ses c] ! j) = received_on j (es @ [e])"
    if "j < length (started srv)" for j
    using runs [OF that] runs_as_later that bytes i by (cases "j = i") auto
  moreover have "received_on j (es @ [e]) = []" if "j \<ge> length (started srv)" for j
    using inv that i bytes(1) [of j] by (auto simp: loop_inv_def)
  moreover have "session_of srv0 (clock (env c)) s" if "session_of srv0 (clock w) s" for s
    using that \<open>clock w \<le> clock (env c)\<close> by (auto simp: session_of_def)
  ultimately show ?thesis using inv by (auto simp: loop_inv_def same_config_def)
qed

lemma loop_inv_event:
  assumes inv: "loop_inv B srv0 es srv w" and e: "run_one B e (Running srv w lg) = Some (Running srv' w' lg')"
  shows "loop_inv B srv0 (es @ [e]) srv' w'"
  using e
proof (cases rule: run_one_cases)
  case (accepted error s ss srv2 lg2)
  then show ?thesis using loop_inv_accept [OF inv accepted(2)] by simp
next
  case (session i x c)
  then show ?thesis using loop_inv_session [OF inv session(1,2,4,5)] by (simp add: resume_def)
next
  case (time t)
  moreover have "runs_as B srv0 (w\<lparr>clock := t\<rparr>) s" if "runs_as B srv0 w s" for s
    using runs_as_later [OF that] time(2) by simp
  ultimately show ?thesis using inv by (auto simp: loop_inv_def session_of_def)
qed simp_all

section \<open>Runs\<close>

text \<open>Some connection has delivered a complete request with a valid credential.\<close>

definition credentials_received :: "boost \<Rightarrow> server \<Rightarrow> event list \<Rightarrow> bool" where
  "credentials_received B srv0 es \<longleftrightarrow> (\<exists>i buf. prefix buf (received_on i es) \<and> authorised B (srv_credentials srv0) buf)"

definition loop_ok :: "boost \<Rightarrow> server \<Rightarrow> world \<Rightarrow> event list \<Rightarrow> process \<Rightarrow> bool" where
  "loop_ok B srv0 w0 es p \<longleftrightarrow>
     (case p of
        Running srv w lg \<Rightarrow> loop_inv B srv0 es srv w \<and> (disk w = disk w0 \<or> credentials_received B srv0 es)
      | Exited n lg \<Rightarrow> n = 1 \<and> es \<noteq> [] \<and> last es = Interrupt
      | Crashed f \<Rightarrow> credentials_received B srv0 es)"

lemma credentials_received_mono: "credentials_received B srv0 es \<Longrightarrow> credentials_received B srv0 (es @ [e])"
  unfolding credentials_received_def received_on_simps using prefix_prefix by metis

lemma runs_as_credentials: "runs_as B srv0 w s \<Longrightarrow> credentials s = srv_credentials srv0"
  using session_reaches_keeps by (fastforce simp: runs_as_def session_of_def)

lemma authorised_credentials_received:
  assumes "loop_inv B srv0 es srv w" and "i < length (started srv)"
    and "authorised B (credentials (started srv ! i)) (buffer (started srv ! i) @ bytes_on i e)"
  shows "credentials_received B srv0 (es @ [e])"
proof -
  have "credentials (started srv ! i) = srv_credentials srv0" "buffer (started srv ! i) = received_on i es"
    using assms(1,2) runs_as_credentials by (auto simp: loop_inv_def)
  with assms(3) have "authorised B (srv_credentials srv0) (received_on i (es @ [e]))" by simp
  then show ?thesis by (auto simp: credentials_received_def)
qed

lemma loop_ok_event:
  assumes ok: "loop_ok B srv0 w0 es p" and e: "run_one B e p = Some p'"
  shows "loop_ok B srv0 w0 (es @ [e]) p'"
proof -
  obtain srv w lg where p: "p = Running srv w lg" using e by (cases p) auto
  with ok have inv: "loop_inv B srv0 es srv w" and disk: "disk w = disk w0 \<or> credentials_received B srv0 (es @ [e])"
    using credentials_received_mono by (auto simp: loop_ok_def)
  have next_inv: "loop_inv B srv0 (es @ [e]) srv' w'" if "p' = Running srv' w' lg'" for srv' w' lg'
    using loop_inv_event [OF inv] e p that by simp
  from e [unfolded p] show ?thesis
  proof (cases rule: run_one_cases)
    case (session i x c)
    then have "disk (env c) = disk w \<or> credentials_received B srv0 (es @ [e])"
      using authorised_credentials_received [OF inv session(1)] handled_by_authorised by blast
    then show ?thesis using next_inv session(3) disk by (auto simp: loop_ok_def resume_def)
  next
    case (fault i req h f)
    then show ?thesis using authorised_credentials_received [OF inv fault(1) handled_by_authorised [OF fault(4)]] by (simp add: loop_ok_def)
  next
    case idle
    then show ?thesis using inv by (simp add: loop_inv_def)
  qed (use next_inv disk in \<open>simp_all add: loop_ok_def\<close>)
qed

lemma event_loop_ok:
  assumes "event_loop B (Running srv0 w0 lg0) es p" and "loop_inv B srv0 [] srv0 w0"
  shows "loop_ok B srv0 w0 es p"
  using assms(1)
proof induction
  case loop_starts
  then show ?case using assms(2) by (simp add: loop_ok_def)
next
  case (loop_event es p e p')
  then show ?case using loop_ok_event by blast
qed

lemma new_server_started:
  assumes "new_server bind port config creds at w lg = Inr (Constructed srv lg')"
  shows "started srv = []"
  using assms
  by (auto simp: new_server_def start_accept_def bind_res_eq_Inr_iff Let_def case_prod_beta split: option.splits)

lemma serving_loop_inv:
  assumes "server_main bind argv w lg = Inr (Serving srv lg')"
  shows "loop_inv B srv [] srv w"
proof -
  obtain config port creds t lg1 lg2 where new:
    "new_server bind (word_of_int port) config creds (word_of_int t) w lg1 = Inr (Constructed srv lg2)"
    using assms main_serve_Serving main_auth_time_Serving main_port_Serving server_main_Serving by metis
  then have "server_inv srv (clock w)" "started srv = []" using new_server_inv new_server_started by blast+
  then show ?thesis by (auto simp: loop_inv_def server_inv_def same_config_def)
qed

text \<open>Everything that is true of a process that \<^verbatim>\<open>main\<close> has started.\<close>

lemma serving_loop_ok:
  assumes "server_main bind argv w0 lg = Inr (Serving srv0 lg0)" and "event_loop B (Running srv0 w0 lg0) es p"
  shows "loop_ok B srv0 w0 es p"
  by (rule event_loop_ok [OF assms(2) serving_loop_inv [OF assms(1)]])

end
