(* ===== verification/Event_Loop_Requests.thy ===== *)
theory Event_Loop_Requests
  imports Event_Loop
begin

text \<open>
  Single events of the loop: what one request does to its connection and to all others, and which
  events of different connections can be exchanged.
\<close>

section \<open>Single requests in the loop\<close>

text \<open>An authorised request on a live session, as one event of the loop.\<close>

lemma run_authorised:
  assumes "waits_for srv i Async_Read" and "deliverable (Inr d)" and s: "started srv ! i = s"
    and "authorised B (credentials s) (buffer s @ d)" and "\<not> expired_at s (clock w)"
    and "parser_put B (buffer s @ d) = Put_done req" and h: "getRequestHandler (dispatcher s) (req_target req) = Some h"
    and r: "handleRequest B h req (response s) w = Inr (r, w')"
  shows "\<exists>lg'. run_one B (Read_Done i (Inr d)) (Running srv w lg) =
    Some (Running (srv\<lparr>started := (started srv)[i := s\<lparr>buffer := buffer s @ d, last_auth_time := clock w, response := r,
      pending := remove1 Async_Read (pending s) @ [Async_Write]\<rparr>]\<rparr>) w' lg')"
proof -
  let ?c = "complete Async_Read (connection_of srv i w lg)"
  obtain c1 where c1: "handle_read_callback B (Inr d) ?c = dispatch_request B req c1" "env c1 = w"
      "ses c1 = s\<lparr>buffer := buffer s @ d, last_auth_time := clock w, pending := remove1 Async_Read (pending s)\<rparr>"
    using read_authorised [of B ?c d] assms(4,5,6) s by auto
  obtain c' where "dispatch_request B req c1 = Inr (Some 0, c')" "env c' = w'"
      "ses c' = (ses c1)\<lparr>response := r, pending := pending (ses c1) @ [Async_Write]\<rparr>"
    using dispatch_request_Some [of c1 req h B] h r c1(2,3) by auto
  then show ?thesis using assms(1,2) c1 by (auto simp: resume_def)
qed

lemma run_write_succeeds:
  assumes "i < length (started srv)" and "Async_Write \<in> set (pending (started srv ! i))"
  shows "\<exists>lg'. run_one B (Write_Done i None) (Running srv w lg) =
    Some (Running (srv\<lparr>started := (started srv)[i := (started srv ! i)\<lparr>pending := remove1 Async_Write (pending (started srv ! i)),
      socket_shutdown := True\<rparr>]\<rparr>) w lg')"
  using assms by (simp add: waits_for_def resume_def handle_write_callback_def Let_def)

text \<open>
  C25. A connection serves one request: when a live connection with a read in flight delivers bytes
  that complete a request with a valid credential and its handler returns, the next event is the
  answer of that handler, in the world the handler left; once the write has succeeded the socket is
  shut down and no read or write of the connection can happen any more.
\<close>

theorem one_request_per_connection:
  assumes "i < length (started srv)" and "pending (started srv ! i) = [Async_Read]" and "deliverable (Inr d)"
    and "authorised B (credentials (started srv ! i)) (buffer (started srv ! i) @ d)" and "\<not> expired_at (started srv ! i) (clock w)"
    and "parser_put B (buffer (started srv ! i) @ d) = Put_done req"
    and "getRequestHandler (dispatcher (started srv ! i)) (req_target req) = Some h"
    and "handleRequest B h req (response (started srv ! i)) w = Inr (r, w')"
  shows "\<exists>srv1 lg1 srv2 lg2. run_one B (Read_Done i (Inr d)) (Running srv w lg) = Some (Running srv1 w' lg1) \<and>
    response (started srv1 ! i) = r \<and> pending (started srv1 ! i) = [Async_Write] \<and>
    run_one B (Write_Done i None) (Running srv1 w' lg1) = Some (Running srv2 w' lg2) \<and> socket_shutdown (started srv2 ! i) \<and>
    (\<forall>completion error. run_one B (Read_Done i completion) (Running srv2 w' lg2) = None \<and>
      run_one B (Write_Done i error) (Running srv2 w' lg2) = None)"
proof -
  let ?s = "(started srv ! i)\<lparr>buffer := buffer (started srv ! i) @ d, last_auth_time := clock w, response := r, pending := [Async_Write]\<rparr>"
  let ?srv1 = "srv\<lparr>started := (started srv)[i := ?s]\<rparr>"
  have "waits_for srv i Async_Read" using assms(1,2) by (simp add: waits_for_def)
  from run_authorised [OF this assms(3) refl assms(4-8), of lg] assms(2) obtain lg1 where
    one: "run_one B (Read_Done i (Inr d)) (Running srv w lg) = Some (Running ?srv1 w' lg1)" by auto
  have s: "started ?srv1 ! i = ?s" using assms(1) by simp
  obtain lg2 where two: "run_one B (Write_Done i None) (Running ?srv1 w' lg1) =
      Some (Running (?srv1\<lparr>started := (started ?srv1)[i := ?s\<lparr>pending := [], socket_shutdown := True\<rparr>]\<rparr>) w' lg2)"
    using run_write_succeeds [of i ?srv1 B w' lg1] assms(1) by auto
  have "\<not> waits_for (?srv1\<lparr>started := (started ?srv1)[i := ?s\<lparr>pending := [], socket_shutdown := True\<rparr>]\<rparr>) i x" for x
    using assms(1) by (simp add: waits_for_def)
  then show ?thesis
    using one two s assms(1)
    by (intro exI [of _ ?srv1] exI [of _ lg1] exI [of _ "?srv1\<lparr>started := (started ?srv1)[i := ?s\<lparr>pending := [], socket_shutdown := True\<rparr>]\<rparr>"]
        exI [of _ lg2]) simp
qed

text \<open>
  C38. A request to a sleep handler stops the whole server: its event takes five seconds of the one
  thread, in which no other completion handler runs and no connection is accepted; every other
  connection is as it was except that it is five seconds older, so that a session with less than five
  seconds left has expired.
\<close>

theorem sleep_request_stops_server:
  assumes "waits_for srv i Async_Read" and "deliverable (Inr d)"
    and "authorised B (credentials (started srv ! i)) (buffer (started srv ! i) @ d)" and "\<not> expired_at (started srv ! i) (clock w)"
    and "parser_put B (buffer (started srv ! i) @ d) = Put_done req"
    and "getRequestHandler (dispatcher (started srv ! i)) (req_target req) = Some RequestHandlerSleep"
  shows "\<exists>srv' lg'. run_one B (Read_Done i (Inr d)) (Running srv w lg) = Some (Running srv' (w\<lparr>clock := clock w + 5000000000\<rparr>) lg') \<and>
    accepting srv' = accepting srv \<and> length (started srv') = length (started srv) \<and>
    (\<forall>j<length (started srv). j \<noteq> i \<longrightarrow> started srv' ! j = started srv ! j \<and>
      (last_auth_time (started srv ! j) \<le> clock w \<and>
       last_auth_time (started srv ! j) + (sint (auth_time (started srv ! j)) + 1) * 1000000000 \<le> clock w + 5000000000 \<longrightarrow>
       expired_at (started srv' ! j) (clock w + 5000000000)))"
proof -
  obtain r where r: "handleRequest B RequestHandlerSleep req (response (started srv ! i)) w = Inr (r, w\<lparr>clock := clock w + 5000000000\<rparr>)"
    by (simp add: RequestHandlerSleep_handleRequest_def sleep_for_def Let_def)
  have old: "expired_at s (clock w + 5000000000)"
    if "last_auth_time s \<le> clock w" "last_auth_time s + (sint (auth_time s) + 1) * 1000000000 \<le> clock w + 5000000000" for s
    using duration_seconds_less [of "clock w + 5000000000 - last_auth_time s" "sint (auth_time s)"] that by (simp add: expired_at_def)
  let ?s = "(started srv ! i)\<lparr>buffer := buffer (started srv ! i) @ d, last_auth_time := clock w, response := r,
      pending := remove1 Async_Read (pending (started srv ! i)) @ [Async_Write]\<rparr>"
  obtain lg' where "run_one B (Read_Done i (Inr d)) (Running srv w lg) =
      Some (Running (srv\<lparr>started := (started srv)[i := ?s]\<rparr>) (w\<lparr>clock := clock w + 5000000000\<rparr>) lg')"
    using run_authorised [OF assms(1,2) refl assms(3-6) r, of lg] by blast
  then show ?thesis
    using old by (intro exI [of _ "srv\<lparr>started := (started srv)[i := ?s]\<rparr>"] exI [of _ lg']) (simp del: run_one.simps)
qed

section \<open>Instances\<close>

text \<open>Two connections to the shipped configuration, each waiting for its first bytes.\<close>

definition sample_server :: server where
  "sample_server = \<lparr>acceptor_port = 80, srv_dispatcher = example_handlers, srv_credentials = [''tariq'' \<mapsto> ''123''],
     srv_auth_time = 1800, accepting = [], started = [ses (session_start sample_connection), ses (session_start sample_connection)]\<rparr>"

lemma sample_server_simps:
  "length (started sample_server) = 2" "pending (started sample_server ! 0) = [Async_Read]"
  "credentials (started sample_server ! 0) = [''tariq'' \<mapsto> ''123'']" "dispatcher (started sample_server ! 0) = example_handlers"
  "buffer (started sample_server ! 0) = []" "\<not> expired_at (started sample_server ! 0) 0"
  by (simp_all add: sample_server_def session_start_def expired_at_def duration_seconds_def)

lemma good_request_authorised:
  "authorised (ref_boost (\<lambda>_. Put_done (auth_request t (Some good_header)))) [''tariq'' \<mapsto> ''123''] buf"
  using good_header_valid by (simp add: authorised_def auth_request_find)

theorem one_request_per_connection_witness:
  "\<exists>srv1 lg1 srv2 lg2 r.
     run_one (ref_boost (\<lambda>_. Put_done (auth_request ''/health'' (Some good_header)))) (Read_Done 0 (Inr ''x''))
       (Running sample_server sample_world None) = Some (Running srv1 sample_world lg1) \<and>
     pending (started srv1 ! 0) = [Async_Write] \<and> res_body (response (started srv1 ! 0)) = ''OK'' \<and>
     run_one (ref_boost (\<lambda>_. Put_done (auth_request ''/health'' (Some good_header)))) (Write_Done 0 None)
       (Running srv1 sample_world lg1) = Some (Running srv2 sample_world lg2) \<and> socket_shutdown (started srv2 ! 0)"
proof -
  let ?B = "ref_boost (\<lambda>_. Put_done (auth_request ''/health'' (Some good_header)))"
  obtain r where r: "handleRequest ?B RequestHandlerHealth (auth_request ''/health'' (Some good_header)) (response (started sample_server ! 0))
      sample_world = Inr (r, sample_world)" "res_body r = ''OK''"
    by (simp add: RequestHandlerHealth_handleRequest_def Let_def)
  have h: "getRequestHandler example_handlers ''/health'' = Some RequestHandlerHealth" by code_simp
  have "\<exists>srv1 lg1 srv2 lg2. run_one ?B (Read_Done 0 (Inr ''x'')) (Running sample_server sample_world None) = Some (Running srv1 sample_world lg1) \<and>
    response (started srv1 ! 0) = r \<and> pending (started srv1 ! 0) = [Async_Write] \<and>
    run_one ?B (Write_Done 0 None) (Running srv1 sample_world lg1) = Some (Running srv2 sample_world lg2) \<and> socket_shutdown (started srv2 ! 0) \<and>
    (\<forall>completion error. run_one ?B (Read_Done 0 completion) (Running srv2 sample_world lg2) = None \<and>
      run_one ?B (Write_Done 0 error) (Running srv2 sample_world lg2) = None)"
    by (rule one_request_per_connection [where req = "auth_request ''/health'' (Some good_header)" and h = RequestHandlerHealth])
       (use r h good_request_authorised in \<open>simp_all add: sample_server_simps deliverable_def auth_request_def sample_world_def del: handleRequest.simps\<close>)
  with r(2) show ?thesis by blast
qed

theorem sleep_request_stops_server_witness:
  "\<exists>srv' lg'. run_one (ref_boost (\<lambda>_. Put_done (auth_request ''/sleep'' (Some good_header)))) (Read_Done 0 (Inr ''x''))
     (Running sample_server sample_world None) = Some (Running srv' (sample_world\<lparr>clock := 5000000000\<rparr>) lg') \<and>
     started srv' ! 1 = started sample_server ! 1"
proof -
  let ?B = "ref_boost (\<lambda>_. Put_done (auth_request ''/sleep'' (Some good_header)))"
  have h: "getRequestHandler example_handlers ''/sleep'' = Some RequestHandlerSleep" by code_simp
  have w: "waits_for sample_server 0 Async_Read" "deliverable (Inr ''x'')" "clock sample_world = 0"
    by (simp_all add: waits_for_def sample_server_simps deliverable_def sample_world_def)
  have "authorised ?B (credentials (started sample_server ! 0)) (buffer (started sample_server ! 0) @ ''x'')"
      "\<not> expired_at (started sample_server ! 0) (clock sample_world)"
      "parser_put ?B (buffer (started sample_server ! 0) @ ''x'') = Put_done (auth_request ''/sleep'' (Some good_header))"
      "getRequestHandler (dispatcher (started sample_server ! 0)) (req_target (auth_request ''/sleep'' (Some good_header))) = Some RequestHandlerSleep"
    using good_request_authorised h by (simp_all add: sample_server_simps w(3) auth_request_def)
  from sleep_request_stops_server [OF w(1,2) this, of None] obtain srv' lg' where
    "run_one ?B (Read_Done 0 (Inr ''x'')) (Running sample_server sample_world None) =
        Some (Running srv' (sample_world\<lparr>clock := clock sample_world + 5000000000\<rparr>) lg')"
      "\<forall>j<length (started sample_server). j \<noteq> 0 \<longrightarrow> started srv' ! j = started sample_server ! j"
    by blast
  then show ?thesis using w(3) sample_server_simps(1) by (intro exI [of _ srv'] exI [of _ lg']) (simp del: run_one.simps)
qed

section \<open>Interleaving\<close>

text \<open>A read without valid credentials changes the session in a way that depends on nothing else.\<close>

lemma quiet_read:
  assumes "Async_Read \<in> set (pending s)" and "deliverable (Inr d)"
    and "\<not> authorised B (credentials s) (buffer s @ d) \<or> expired_at s (clock w)"
  shows "\<exists>s'. \<forall>srv i lg. i < length (started srv) \<and> started srv ! i = s \<longrightarrow>
    (\<exists>lg'. run_one B (Read_Done i (Inr d)) (Running srv w lg) = Some (Running (srv\<lparr>started := (started srv)[i := s']\<rparr>) w lg'))"
proof -
  let ?c = "complete Async_Read \<lparr>ses = s, env = w, log = None\<rparr>"
  obtain ret c where c: "handle_read_callback B (Inr d) ?c = Inr (ret, c)" "env c = w"
    using read_unauthorised [of B ?c d] assms(3) by auto
  have "\<exists>lg'. run_one B (Read_Done i (Inr d)) (Running srv w lg) = Some (Running (srv\<lparr>started := (started srv)[i := ses c]\<rparr>) w lg')"
    if "i < length (started srv)" "started srv ! i = s" for srv i lg
  proof -
    let ?c2 = "complete Async_Read (connection_of srv i w lg)"
    have "agree_but_log (Inr (ret, c)) (handle_read_callback B (Inr d) ?c2)"
      using read_callback_log_irrelevant [of ?c ?c2 B "Inr d"] c(1) that(2) by (simp add: same_but_log_def)
    then obtain c2 where "handle_read_callback B (Inr d) ?c2 = Inr (ret, c2)" "ses c2 = ses c" "env c2 = w"
      using c(2) by (auto simp: agree_but_log_def same_but_log_def elim: rel_sum.cases)
    then show ?thesis using assms(1,2) that by (simp add: waits_for_def resume_def)
  qed
  then show ?thesis by blast
qed

text \<open>
  Clients without valid credentials cannot see each other: when two connections deliver bytes
  that are not a complete request with a valid credential, or are delivered to an expired session,
  both orders of the two events lead to the same state of all sessions, the same disk and the same
  time; only the log can differ.
\<close>

lemma unauthorised_reads_commute:
  assumes "i \<noteq> j" and "waits_for srv i Async_Read" and "waits_for srv j Async_Read" and "deliverable (Inr d)" and "deliverable (Inr d')"
    and "\<not> authorised B (credentials (started srv ! i)) (buffer (started srv ! i) @ d) \<or> expired_at (started srv ! i) (clock w)"
    and "\<not> authorised B (credentials (started srv ! j)) (buffer (started srv ! j) @ d') \<or> expired_at (started srv ! j) (clock w)"
  shows "\<exists>srvi lgi srvj lgj srv' lg1 lg2.
    run_one B (Read_Done i (Inr d)) (Running srv w lg) = Some (Running srvi w lgi) \<and>
    run_one B (Read_Done j (Inr d')) (Running srvi w lgi) = Some (Running srv' w lg1) \<and>
    run_one B (Read_Done j (Inr d')) (Running srv w lg) = Some (Running srvj w lgj) \<and>
    run_one B (Read_Done i (Inr d)) (Running srvj w lgj) = Some (Running srv' w lg2)"
proof -
  have len: "i < length (started srv)" "j < length (started srv)" and pend: "Async_Read \<in> set (pending (started srv ! i))"
      "Async_Read \<in> set (pending (started srv ! j))"
    using assms(2,3) by (auto simp: waits_for_def)
  obtain si where i: "\<And>srv2 lg2. length (started srv2) = length (started srv) \<Longrightarrow> started srv2 ! i = started srv ! i \<Longrightarrow>
      \<exists>lg'. run_one B (Read_Done i (Inr d)) (Running srv2 w lg2) = Some (Running (srv2\<lparr>started := (started srv2)[i := si]\<rparr>) w lg')"
    using quiet_read [OF pend(1) assms(4,6)] len(1) by metis
  obtain sj where j: "\<And>srv2 lg2. length (started srv2) = length (started srv) \<Longrightarrow> started srv2 ! j = started srv ! j \<Longrightarrow>
      \<exists>lg'. run_one B (Read_Done j (Inr d')) (Running srv2 w lg2) = Some (Running (srv2\<lparr>started := (started srv2)[j := sj]\<rparr>) w lg')"
    using quiet_read [OF pend(2) assms(5,7)] len(2) by metis
  let ?i = "srv\<lparr>started := (started srv)[i := si]\<rparr>" and ?j = "srv\<lparr>started := (started srv)[j := sj]\<rparr>"
  obtain lgi lgj where one: "run_one B (Read_Done i (Inr d)) (Running srv w lg) = Some (Running ?i w lgi)"
      "run_one B (Read_Done j (Inr d')) (Running srv w lg) = Some (Running ?j w lgj)"
    using i [of srv lg] j [of srv lg] by auto
  obtain lg1 lg2 where "run_one B (Read_Done j (Inr d')) (Running ?i w lgi) = Some (Running (?i\<lparr>started := (started ?i)[j := sj]\<rparr>) w lg1)"
      "run_one B (Read_Done i (Inr d)) (Running ?j w lgj) = Some (Running (?j\<lparr>started := (started ?j)[i := si]\<rparr>) w lg2)"
    using i [of ?j lgj] j [of ?i lgi] assms(1) by (auto simp del: run_one.simps)
  moreover have "?i\<lparr>started := (started ?i)[j := sj]\<rparr> = ?j\<lparr>started := (started ?j)[i := si]\<rparr>"
    using list_update_swap [OF assms(1), of "started srv" si sj] by simp
  ultimately show ?thesis using one by metis
qed

end
