(* ===== verification/Event_Loop_Safety.thy ===== *)
theory Event_Loop_Safety
  imports Event_Loop_Requests
begin

text \<open>
  What holds in every state of the process after \<^verbatim>\<open>main\<close> has entered the event loop, for
  any number of connections and any order of events.
\<close>

section \<open>Properties of the running server\<close>

lemma runs_as_safe:
  assumes "runs_as B srv0 w s"
  shows "session_of srv0 (clock w) (s\<lparr>buffer := []\<rparr>)" and "write_justified B s" and "boost_laws B \<Longrightarrow> write_sendable B s"
proof -
  obtain c0 x c where c: "session_reaches B c0 x c" "ses c = s" "env c = w" "session_of srv0 (clock (env c0)) (ses c0)" "pending (ses c0) = []"
    using assms by (auto simp: runs_as_def)
  show "session_of srv0 (clock w) (s\<lparr>buffer := []\<rparr>)"
    using session_reaches_keeps [OF c(1)] c(2-4) by (auto simp: session_of_def)
  show "write_justified B s" using session_reaches_inv [OF c(1,5)] c(2) by (auto simp: run_inv_def)
  show "write_sendable B s" if "boost_laws B" using session_reaches_sendable [OF c(1) that c(5)] c(2) by simp
qed

text \<open>
  C13. The composition of all sessions in one event loop does what each session does alone: whatever
  events have happened since \<^verbatim>\<open>main\<close> started the loop, the state of every connection is one
  that a single session with the credentials, handlers and authorization time of the configuration
  reaches from \<^verbatim>\<open>start()\<close>, in the present world, and its buffer is what that connection
  delivered and nothing from another connection.
\<close>

theorem event_loop_refines_sessions:
  assumes "server_main bind argv w0 lg = Inr (Serving srv0 lg0)"
    and "event_loop B (Running srv0 w0 lg0) es (Running srv w lg1)" and "i < length (started srv)"
  shows "\<exists>c0 x c. session_reaches B c0 x c \<and> ses c = started srv ! i \<and> env c = w \<and>
    session_of srv0 (clock (env c0)) (ses c0) \<and> pending (ses c0) = [] \<and> buffer (started srv ! i) = received_on i es"
  using serving_loop_ok [OF assms(1,2)] assms(3) by (auto simp: loop_ok_def loop_inv_def runs_as_def)

text \<open>
  C2. Without credentials nothing happens: if no connection has delivered a complete request with a
  valid credential, then whatever bytes arrive in whatever order on however many connections, the
  process has not crashed, the disk is as it was when the loop started, and every response in flight
  is a 400, 401 or 500.
\<close>

theorem no_credentials_no_effect:
  assumes "server_main bind argv w0 lg = Inr (Serving srv0 lg0)" and "event_loop B (Running srv0 w0 lg0) es p"
    and "\<forall>i buf. prefix buf (received_on i es) \<longrightarrow> \<not> authorised B (srv_credentials srv0) buf"
  shows "(\<exists>lg1. p = Exited 1 lg1) \<or>
    (\<exists>srv w lg1. p = Running srv w lg1 \<and> disk w = disk w0 \<and>
      (\<forall>s\<in>set (started srv). Async_Write \<in> set (pending s) \<longrightarrow> status_code (res_result (response s)) \<in> {400, 401, 500}))"
proof -
  note ok = serving_loop_ok [OF assms(1,2)]
  have none: "\<not> credentials_received B srv0 es" using assms(3) by (auto simp: credentials_received_def)
  show ?thesis
  proof (cases p)
    case (Running srv w lg1)
    with ok none have inv: "loop_inv B srv0 es srv w" "disk w = disk w0" by (auto simp: loop_ok_def)
    have "rejection (response (started srv ! i))" if "i < length (started srv)" "Async_Write \<in> set (pending (started srv ! i))" for i
    proof -
      have run: "runs_as B srv0 w (started srv ! i)" "buffer (started srv ! i) = received_on i es"
        using inv(1) that(1) by (auto simp: loop_inv_def)
      show ?thesis
        using runs_as_safe(2) [OF run(1)] runs_as_credentials [OF run(1)] run(2) that(2) assms(3) by (auto simp: write_justified_def)
    qed
    then have "\<forall>s\<in>set (started srv). Async_Write \<in> set (pending s) \<longrightarrow> rejection (response s)" by (metis in_set_conv_nth)
    then show ?thesis using Running inv(2) by (auto simp: rejection_code)
  qed (use ok none in \<open>auto simp: loop_ok_def\<close>)
qed

text \<open>
  C14. While the process runs, one accept is in flight, every connection has the configuration of the
  server, and a response in flight is framed, carries a challenge when it is a 401, and is a 400, 401
  or 500 or answers a request with a valid credential in the bytes of the same connection.
\<close>

theorem event_loop_safety:
  assumes "boost_laws B" and "server_main bind argv w0 lg = Inr (Serving srv0 lg0)"
    and "event_loop B (Running srv0 w0 lg0) es (Running srv w lg1)"
  shows "length (accepting srv) = 1 \<and>
    (\<forall>s\<in>set (started srv). dispatcher s = srv_dispatcher srv0 \<and> credentials s = srv_credentials srv0 \<and>
      auth_time s = srv_auth_time srv0 \<and> last_auth_time s \<le> clock w \<and>
      (Async_Write \<in> set (pending s) \<longrightarrow>
        res_find B field_content_length (response s) = Some (nat_to_string (length (res_body (response s)))) \<and>
        (res_result (response s) = status_unauthorized \<longrightarrow> res_find B field_www_authenticate (response s) \<noteq> None) \<and>
        (status_code (res_result (response s)) \<in> {400, 401, 500} \<or>
          (\<exists>buf. prefix buf (buffer s) \<and> authorised B (srv_credentials srv0) buf))))"
proof -
  have inv: "loop_inv B srv0 es srv w" using serving_loop_ok [OF assms(2,3)] by (simp add: loop_ok_def)
  then have one: "length (accepting srv) = 1" by (auto simp: loop_inv_def)
  have run: "runs_as B srv0 w s" if "s \<in> set (started srv)" for s
    using inv that by (auto simp: loop_inv_def in_set_conv_nth)
  show ?thesis
    unfolding rejection_code [symmetric]
    using one runs_as_safe [OF run] runs_as_credentials [OF run] assms(1)
    by (auto simp: session_of_def write_justified_def write_sendable_def sendable_def framed_def)
qed

text \<open>
  C19. \<^verbatim>\<open>io_service.run()\<close> does not return: the process ends only by the interrupt signal,
  with code 1, or by a fault after some connection delivered a complete request with a valid
  credential; as long as it runs it can take the next connection, which then is started.
\<close>

theorem event_loop_never_returns:
  assumes "server_main bind argv w0 lg = Inr (Serving srv0 lg0)" and "event_loop B (Running srv0 w0 lg0) es p"
  shows "case p of
      Running srv w lg1 \<Rightarrow>
        run_one B Out_Of_Work p = None \<and>
        (\<forall>error. \<exists>srv' lg'. run_one B (Accept_Done error) p = Some (Running srv' w lg') \<and>
          length (started srv') = length (started srv) + (if error = None then 1 else 0))
    | Exited code lg1 \<Rightarrow> code = 1 \<and> last es = Interrupt
    | Crashed f \<Rightarrow> \<exists>i buf. prefix buf (received_on i es) \<and> authorised B (srv_credentials srv0) buf"
proof -
  note ok = serving_loop_ok [OF assms]
  show ?thesis
  proof (cases p)
    case (Running srv w lg1)
    with ok obtain s where s: "accepting srv = [s]" by (auto simp: loop_ok_def loop_inv_def)
    have "\<exists>srv' lg'. run_one B (Accept_Done error) p = Some (Running srv' w lg') \<and>
        length (started srv') = length (started srv) + (if error = None then 1 else 0)" for error
      using handle_accept_eq [of w s error "srv\<lparr>accepting := []\<rparr>" lg1] by (auto simp: Running s)
    then show ?thesis using Running s by simp
  qed (use ok in \<open>auto simp: loop_ok_def credentials_received_def\<close>)
qed

section \<open>The disk\<close>

lemma run_one_safe_cwd:
  assumes "boost_laws B" and "run_one B e (Running srv w lg) = Some (Running srv' w' lg')" and "safe_cwd (disk w)"
  shows "safe_cwd (disk w')"
  using assms(2)
proof (cases rule: run_one_cases)
  case (session i x c)
  then show ?thesis using handleRequest_wf [OF assms(1,3)] assms(3) by (auto simp: resume_def)
qed (use assms(3) in simp_all)



section \<open>Instances\<close>

text \<open>A first connection to the server of the shipped configuration.\<close>

lemma deployed_serves: "\<exists>srv lg'. server_main (\<lambda>_. None) [''server'', ''c''] deployed_world None = Inr (Serving srv lg')"
  using server_main_succeeds [OF deployed_Parse_file example_config3_port _ example_config3_auth_time _ _ example_config3_credentials]
    example_config3_registration by simp

lemma run_accepts:
  assumes "accepting srv = [s]" and "pending s = []"
  shows "\<exists>lg'. run_one B (Accept_Done None) (Running srv w lg) =
    Some (Running (srv\<lparr>accepting := [fst (new_session (srv_dispatcher srv) (srv_credentials srv) (srv_auth_time srv) w lg)],
      started := started srv @ [s\<lparr>pending := [Async_Read]\<rparr>]\<rparr>) w lg')"
  using handle_accept_eq [of w s None "srv\<lparr>accepting := []\<rparr>" lg] assms by auto

lemma new_server_accepting:
  assumes "new_server bind port config creds at w lg = Inr (Constructed srv lg')"
  shows "\<exists>s. accepting srv = [s] \<and> pending s = [] \<and> buffer s = [] \<and> last_auth_time s = clock w \<and>
    response s = make_response status_ok 11 \<and> \<not> socket_shutdown s"
  using assms
  by (auto simp: new_server_def start_accept_def new_session_def bind_res_eq_Inr_iff Let_def case_prod_beta split: option.splits)

lemma serving_accepting:
  assumes "server_main bind argv w lg = Inr (Serving srv lg')"
  shows "started srv = []" and "\<exists>s. accepting srv = [s] \<and> pending s = [] \<and> buffer s = [] \<and> last_auth_time s = clock w \<and>
    response s = make_response status_ok 11 \<and> \<not> socket_shutdown s"
proof -
  obtain config port creds t lg1 lg2 where new:
    "new_server bind (word_of_int port) config creds (word_of_int t) w lg1 = Inr (Constructed srv lg2)"
    using assms main_serve_Serving main_auth_time_Serving main_port_Serving server_main_Serving by metis
  show "started srv = []" by (rule new_server_started [OF new])
  show "\<exists>s. accepting srv = [s] \<and> pending s = [] \<and> buffer s = [] \<and> last_auth_time s = clock w \<and>
    response s = make_response status_ok 11 \<and> \<not> socket_shutdown s" by (rule new_server_accepting [OF new])
qed

lemma first_connection:
  assumes "server_main bind argv w0 lg = Inr (Serving srv0 lg0)"
  shows "\<exists>srv lg1 s. event_loop B (Running srv0 w0 lg0) [Accept_Done None] (Running srv w0 lg1) \<and> started srv = [s] \<and> pending s = [Async_Read]"
proof -
  obtain s where "accepting srv0 = [s]" "pending s = []" using serving_accepting(2) [OF assms] by blast
  from run_accepts [OF this, of B w0 lg0] obtain srv lg1 where
    "run_one B (Accept_Done None) (Running srv0 w0 lg0) = Some (Running srv w0 lg1)" "started srv = [s\<lparr>pending := [Async_Read]\<rparr>]"
    using serving_accepting(1) [OF assms] by auto
  with loop_event [OF loop_starts, of B "Accept_Done None" "Running srv0 w0 lg0"] show ?thesis
    by (auto simp del: run_one.simps)
qed

theorem event_loop_refines_sessions_witness:
  "\<exists>srv0 lg0 srv w lg1. server_main (\<lambda>_. None) [''server'', ''c''] deployed_world None = Inr (Serving srv0 lg0) \<and>
     event_loop (ref_boost (\<lambda>_. Put_more)) (Running srv0 deployed_world lg0) [Accept_Done None] (Running srv w lg1) \<and>
     (\<exists>c0 x c. session_reaches (ref_boost (\<lambda>_. Put_more)) c0 x c \<and> ses c = started srv ! 0)"
proof -
  let ?B = "ref_boost (\<lambda>_. Put_more)"
  obtain srv0 lg0 where s: "server_main (\<lambda>_. None) [''server'', ''c''] deployed_world None = Inr (Serving srv0 lg0)"
    using deployed_serves by blast
  from first_connection [OF this, of ?B] obtain srv lg1 s1 where
    r: "event_loop ?B (Running srv0 deployed_world lg0) [Accept_Done None] (Running srv deployed_world lg1)" "started srv = [s1]"
    by blast
  from event_loop_refines_sessions [OF s r(1), of 0] r(2) have "\<exists>c0 x c. session_reaches ?B c0 x c \<and> ses c = started srv ! 0" by auto
  with s r(1) show ?thesis by blast
qed

theorem event_loop_safety_witness:
  "\<exists>srv0 lg0 srv w lg1. server_main (\<lambda>_. None) [''server'', ''c''] deployed_world None = Inr (Serving srv0 lg0) \<and>
     event_loop (ref_boost (\<lambda>_. Put_more)) (Running srv0 deployed_world lg0) [Accept_Done None] (Running srv w lg1) \<and>
     length (accepting srv) = 1 \<and> list_all (\<lambda>s. credentials s = srv_credentials srv0) (started srv)"
proof -
  let ?B = "ref_boost (\<lambda>_. Put_more)"
  obtain srv0 lg0 where s: "server_main (\<lambda>_. None) [''server'', ''c''] deployed_world None = Inr (Serving srv0 lg0)"
    using deployed_serves by blast
  from first_connection [OF this, of ?B] obtain srv lg1 where
    r: "event_loop ?B (Running srv0 deployed_world lg0) [Accept_Done None] (Running srv deployed_world lg1)"
    by blast
  from event_loop_safety [OF ref.boost_laws_axioms s r] s r show ?thesis
    by (intro exI [of _ srv0] exI [of _ lg0] exI [of _ srv] exI [of _ deployed_world] exI [of _ lg1]) (simp add: list_all_iff)
qed

theorem event_loop_never_returns_witness:
  "\<exists>srv0 lg0. server_main (\<lambda>_. None) [''server'', ''c''] deployed_world None = Inr (Serving srv0 lg0) \<and>
     run_one (ref_boost (\<lambda>_. Put_more)) Out_Of_Work (Running srv0 deployed_world lg0) = None"
proof -
  obtain srv0 lg0 where s: "server_main (\<lambda>_. None) [''server'', ''c''] deployed_world None = Inr (Serving srv0 lg0)"
    using deployed_serves by blast
  from event_loop_never_returns [OF this loop_starts [of "ref_boost (\<lambda>_. Put_more)"]] s show ?thesis by auto
qed

theorem no_credentials_no_effect_witness:
  "\<exists>srv0 lg0 p. server_main (\<lambda>_. None) [''server'', ''c''] deployed_world None = Inr (Serving srv0 lg0) \<and>
     event_loop (ref_boost (\<lambda>_. Put_error ''bad'')) (Running srv0 deployed_world lg0) [Accept_Done None, Read_Done 0 (Inr ''x'')] p \<and>
     (\<exists>srv w lg1. p = Running srv w lg1 \<and> disk w = disk deployed_world)"
proof -
  let ?B = "ref_boost (\<lambda>_. Put_error ''bad'')"
  obtain srv0 lg0 where s: "server_main (\<lambda>_. None) [''server'', ''c''] deployed_world None = Inr (Serving srv0 lg0)"
    using deployed_serves by blast
  from first_connection [OF this, of ?B] obtain srv lg1 s1 where
    r: "event_loop ?B (Running srv0 deployed_world lg0) [Accept_Done None] (Running srv deployed_world lg1)" "started srv = [s1]"
      "pending s1 = [Async_Read]"
    by blast
  then have "\<exists>srv2 lg2. run_one ?B (Read_Done 0 (Inr ''x'')) (Running srv deployed_world lg1) = Some (Running srv2 deployed_world lg2)"
    by (simp add: waits_for_def deliverable_def handle_read_callback_def resume_def Let_def)
  then obtain srv2 lg2 where r2: "event_loop ?B (Running srv0 deployed_world lg0) [Accept_Done None, Read_Done 0 (Inr ''x'')]
      (Running srv2 deployed_world lg2)"
    using loop_event [OF r(1), of "Read_Done 0 (Inr ''x'')"] by auto
  have "\<forall>i buf. prefix buf (received_on i [Accept_Done None, Read_Done 0 (Inr ''x'')]) \<longrightarrow> \<not> authorised ?B (srv_credentials srv0) buf"
    by (simp add: authorised_def)
  from no_credentials_no_effect [OF s r2 this] s r2 show ?thesis by blast
qed

end
