(* ===== verification/Beast_Parser.thy ===== *)
theory Beast_Parser
  imports Event_Loop_Safety
begin

text \<open>
  How the session uses Beast's parser. \<^verbatim>\<open>handle_read_callback\<close> gives all bytes
  received so far to a new \<^verbatim>\<open>http::request_parser\<close> and never calls
  \<^verbatim>\<open>parser.eager(true)\<close>. The locale \<open>beast_put\<close> states the documented behaviour
  of one \<^verbatim>\<open>put\<close> on such a parser; the theorems show what it means for clients of the
  event loop: the first read decides the connection, a request with a body is never answered, and
  only empty items are ever stored. The callback that waits for more bytes runs off its end without a
  \<^verbatim>\<open>return\<close>; in the model, as in the code compilers make of it, control then goes back to
  Asio, which ignores the value.
\<close>

section \<open>Documented behaviour\<close>

text \<open>The empty line that ends a header.\<close>

definition header_end :: string where
  "header_end = crlf @ crlf"

text \<open>
  Without the end of the header \<^verbatim>\<open>put\<close> cannot make progress and sets
  \<^verbatim>\<open>error::need_more\<close>, or the error it found. Without the eager option it returns
  after the header: the message then is complete if the header announces no body, and otherwise stays
  incomplete whatever bytes follow the header in the same buffer; a complete message has an empty
  body.
\<close>

locale beast_put = boost_laws B for B +
  assumes put_incomplete_header: "\<not> sublist header_end buf \<Longrightarrow> \<exists>msg. parser_put B buf = Put_error msg"
    and put_stops_at_body: "parser_put B buf = Put_more \<Longrightarrow> parser_put B (buf @ d) = Put_more"
    and put_stops_at_header: "parser_put B buf = Put_done req \<Longrightarrow> parser_put B (buf @ d) = Put_done req"
    and put_no_body: "parser_put B buf = Put_done req \<Longrightarrow> req_body req = []"
begin

lemma put_has_header:
  "parser_put B buf = Put_more \<Longrightarrow> sublist header_end buf"
  "parser_put B buf = Put_done req \<Longrightarrow> sublist header_end buf"
  using put_incomplete_header by fastforce+

lemma put_more_prefix: "prefix buf buf' \<Longrightarrow> parser_put B buf = Put_more \<Longrightarrow> parser_put B buf' = Put_more"
  using put_stops_at_body by (auto simp: prefix_def)

lemma put_nothing: "\<exists>msg. parser_put B [] = Put_error msg"
  by (rule put_incomplete_header) (simp add: header_end_def crlf_def)

end

text \<open>
  An instance: the shortest prefix that ends in an empty line is looked up in a table of complete
  headers; a header outside the table has a body to come.
\<close>

definition header_part :: "string \<Rightarrow> string option" where
  "header_part buf = find (\<lambda>p. suffix header_end p) (prefixes buf)"

definition header_put :: "(string \<Rightarrow> request option) \<Rightarrow> string \<Rightarrow> put_result" where
  "header_put table buf =
     (case header_part buf of
        None \<Rightarrow> Put_error ''need more''
      | Some hdr \<Rightarrow> (case table hdr of None \<Rightarrow> Put_more | Some req \<Rightarrow> Put_done (req\<lparr>req_body := []\<rparr>)))"

lemma find_append: "find P (xs @ ys) = (case find P xs of None \<Rightarrow> find P ys | Some x \<Rightarrow> Some x)"
  by (induction xs) auto

lemma prefixes_append: "\<exists>ps. prefixes (a @ b) = prefixes a @ ps"
proof (induction b rule: rev_induct)
  case (snoc x b)
  then obtain ps where "prefixes (a @ b) = prefixes a @ ps" by blast
  then show ?case using prefixes_snoc [of "a @ b" x] by simp
qed simp

lemma header_part_append: "header_part buf = Some hdr \<Longrightarrow> header_part (buf @ d) = Some hdr"
  using prefixes_append [of buf d] by (auto simp: header_part_def find_append)

lemma header_part_None: "header_part buf = None \<longleftrightarrow> \<not> sublist header_end buf"
  unfolding header_part_def find_None_iff in_set_prefixes suffix_def prefix_def sublist_def by (metis append.assoc)

lemma header_put_cases:
  "header_put table buf = Put_more \<Longrightarrow> \<exists>hdr. header_part buf = Some hdr \<and> table hdr = None"
  "header_put table buf = Put_done req \<Longrightarrow> \<exists>hdr r. header_part buf = Some hdr \<and> table hdr = Some r \<and> req = r\<lparr>req_body := []\<rparr>"
  by (auto simp: header_put_def split: option.splits)

interpretation ref_put: beast_put "ref_boost (header_put table)" for table
proof unfold_locales
  show "\<exists>msg. parser_put (ref_boost (header_put table)) buf = Put_error msg" if "\<not> sublist header_end buf" for buf
    using that header_part_None [of buf] by (simp add: header_put_def)
  show "parser_put (ref_boost (header_put table)) (buf @ d) = Put_more" if "parser_put (ref_boost (header_put table)) buf = Put_more" for buf d
    using that header_put_cases(1) [of table buf] header_part_append [of buf _ d] by (auto simp: header_put_def)
  show "parser_put (ref_boost (header_put table)) (buf @ d) = Put_done req" if "parser_put (ref_boost (header_put table)) buf = Put_done req" for buf d req
    using that header_put_cases(2) [of table buf req] header_part_append [of buf _ d] by (auto simp: header_put_def)
  show "req_body req = []" if "parser_put (ref_boost (header_put table)) buf = Put_done req" for buf req
    using that header_put_cases(2) [of table buf req] by auto
qed

section \<open>The first read decides\<close>

text \<open>A session that has not answered: nothing was sent, nothing is being sent, the socket is open.\<close>

definition unanswered :: "session \<Rightarrow> bool" where
  "unanswered s \<longleftrightarrow> pending s \<in> {[], [Async_Read]} \<and> response s = make_response status_ok 11 \<and> \<not> socket_shutdown s"

text \<open>
  The states of a session by what it has received: nothing or a header with a body to come leave it
  unanswered, no end of the header in the first read ends it with a 400, and only after a complete
  request can there be another read.
\<close>

definition first_read :: "boost \<Rightarrow> session \<Rightarrow> bool" where
  "first_read B s \<longleftrightarrow>
     (buffer s = [] \<or> parser_put B (buffer s) = Put_more \<longrightarrow> unanswered s) \<and>
     (buffer s \<noteq> [] \<and> \<not> sublist header_end (take 4096 (buffer s)) \<longrightarrow>
        response s = plain_response B status_bad_request ''Bad request'' \<and> pending s \<in> {[], [Async_Write]}) \<and>
     (Async_Read \<in> set (pending s) \<and> buffer s \<noteq> [] \<longrightarrow>
        parser_put B (buffer s) = Put_more \<or> (\<exists>req. parser_put B (buffer s) = Put_done req))"

lemma sublist_take_append: "sublist xs (take n ys) \<Longrightarrow> sublist xs (take n (ys @ zs))"
  unfolding sublist_def take_append by (metis append.assoc)

lemma read_callback_more:
  assumes "parser_put B (buffer (ses c) @ d) = Put_more" and "handle_read_callback B (Inr d) c = Inr (ret, c')"
  shows "ses c' = (ses c)\<lparr>buffer := buffer (ses c) @ d, pending := pending (ses c) @ [Async_Read]\<rparr>"
  by (rule handle_read_callback_received [of c d B]) (use assms in auto)

lemma read_callback_bad:
  assumes "parser_put B (buffer (ses c) @ d) = Put_error msg" and "handle_read_callback B (Inr d) c = Inr (ret, c')"
  shows "ses c' = (ses c)\<lparr>buffer := buffer (ses c) @ d, response := plain_response B status_bad_request ''Bad request'',
    pending := pending (ses c) @ [Async_Write]\<rparr>"
  by (rule handle_read_callback_received [of c d B]) (use assms in auto)

lemma read_callback_thrown:
  assumes "parser_put B (buffer (ses c) @ d) = Put_throws msg" and "handle_read_callback B (Inr d) c = Inr (ret, c')"
  shows "pending (ses c') = pending (ses c) @ [Async_Write]"
  by (rule handle_read_callback_received [of c d B]) (use assms in auto)

context beast_put
begin

lemma first_read_received:
  assumes inv: "first_read B (ses c)" and op: "Async_Read \<in> set (pending (ses c))" and d: "1 \<le> length d" "length d \<le> 4096"
    and cb: "handle_read_callback B (Inr d) (complete Async_Read c) = Inr (ret, c')"
  shows "first_read B (ses c')"
proof -
  let ?b = "buffer (ses c) @ d"
  have b': "buffer (ses c') = ?b" "?b \<noteq> []" using read_callback_effect(1) [OF cb] d(1) by auto
  have old: "buffer (ses c) \<noteq> [] \<Longrightarrow> parser_put B (buffer (ses c)) = Put_more \<or> (\<exists>req. parser_put B (buffer (ses c)) = Put_done req)"
    using inv op by (simp add: first_read_def)
  have fresh: "buffer (ses c) = [] \<or> parser_put B (buffer (ses c)) = Put_more \<Longrightarrow>
      pending (ses c) = [Async_Read] \<and> response (ses c) = make_response status_ok 11 \<and> \<not> socket_shutdown (ses c)"
    using inv op by (auto simp: first_read_def unanswered_def)
  have more: "unanswered (ses c')" if "parser_put B ?b = Put_more"
  proof -
    have "buffer (ses c) = [] \<or> parser_put B (buffer (ses c)) = Put_more"
      using old put_stops_at_header [of "buffer (ses c)" _ d] that by fastforce
    then show ?thesis
      using fresh read_callback_more [of B "complete Async_Read c" d ret c'] cb that by (auto simp: unanswered_def)
  qed
  have first: "buffer (ses c) = []" if "parser_put B ?b = Put_error msg \<or> parser_put B ?b = Put_throws msg" for msg
    using old put_stops_at_header [of "buffer (ses c)" _ d] put_stops_at_body [of "buffer (ses c)" d] that by fastforce
  have no_header: "buffer (ses c) = []" if "\<not> sublist header_end (take 4096 ?b)"
    using that inv op sublist_take_append [of header_end 4096 "buffer (ses c)" d] by (auto simp: first_read_def)
  have bad: "response (ses c') = plain_response B status_bad_request ''Bad request'' \<and> pending (ses c') \<in> {[], [Async_Write]}"
    if "\<not> sublist header_end (take 4096 ?b)"
  proof -
    have "\<not> sublist header_end ?b" using no_header [OF that] that d(2) by simp
    then obtain msg where "parser_put B ?b = Put_error msg" using put_incomplete_header by blast
    then show ?thesis
      using read_callback_bad [of B "complete Async_Read c" d msg ret c'] cb fresh no_header [OF that] by simp
  qed
  have "parser_put B ?b = Put_more \<or> (\<exists>req. parser_put B ?b = Put_done req)" if "Async_Read \<in> set (pending (ses c'))"
  proof (cases "parser_put B ?b")
    case (Put_error msg)
    then show ?thesis using read_callback_bad [of B "complete Async_Read c" d msg ret c'] cb fresh first that by simp
  next
    case (Put_throws msg)
    then show ?thesis using read_callback_thrown [of B "complete Async_Read c" d msg ret c'] cb fresh first that by simp
  qed simp_all
  then show ?thesis using more bad b'(2) unfolding first_read_def b'(1) by blast
qed

end

section \<open>Every connection of the event loop\<close>

definition first_reads :: "boost \<Rightarrow> server \<Rightarrow> bool" where
  "first_reads B srv \<longleftrightarrow> (\<forall>s\<in>set (accepting srv). buffer s = [] \<and> pending s = [] \<and> unanswered s) \<and> (\<forall>s\<in>set (started srv). first_read B s)"

lemma unanswered_new: "unanswered (fst (new_session disp creds at w lg))"
  by (simp add: unanswered_def new_session_def)

lemma first_reads_resume:
  assumes "first_reads B srv" and "resume srv i c = Running srv' w' lg'" and "first_read B (ses c)"
  shows "first_reads B srv'"
  using assms set_update_subset_insert [of "started srv" i "ses c"] by (auto simp: first_reads_def resume_def)

lemma first_reads_accept:
  assumes "first_reads B srv" and "accepting srv = s # ss"
    and "handle_accept w s error (srv\<lparr>accepting := ss\<rparr>) lg = (srv', lg')"
  shows "first_reads B srv'"
  using assms handle_accept_eq [of w s error "srv\<lparr>accepting := ss\<rparr>" lg] unanswered_new
  by (auto simp: first_reads_def first_read_def unanswered_def new_session_def split: if_splits)


context beast_put
begin

lemma first_reads_event:
  assumes inv: "first_reads B srv" and e: "run_one B e (Running srv w lg) = Some (Running srv' w' lg')"
  shows "first_reads B srv'"
  using e
proof (cases rule: run_one_event)
  case (accepted error s ss srv2 lg2)
  then show ?thesis using first_reads_accept [OF inv] by simp
next
  case (read i completion ret c)
  let ?s = "started srv ! i"
  have i: "first_read B ?s" "Async_Read \<in> set (pending ?s)" using inv read(2) by (auto simp: first_reads_def waits_for_def)
  have "first_read B (ses c)"
  proof (cases completion)
    case (Inl msg)
    then have "ses c = ?s\<lparr>pending := remove1 Async_Read (pending ?s)\<rparr>" using read_callback_error(2) [OF read(4) [unfolded Inl]] by simp
    then show ?thesis using i by (auto simp: first_read_def unanswered_def)
  next
    case (Inr d)
    then show ?thesis using first_read_received [of "connection_of srv i w lg" d ret c] i read(3,4) by (simp add: deliverable_def)
  qed
  then show ?thesis using first_reads_resume [OF inv read(5) [symmetric]] by blast
next
  case (written i error code c)
  let ?s = "started srv ! i"
  have i: "first_read B ?s" "Async_Write \<in> set (pending ?s)" using inv written(2) by (auto simp: first_reads_def waits_for_def)
  have c: "buffer (ses c) = buffer ?s" "response (ses c) = response ?s" "pending (ses c) = remove1 Async_Write (pending ?s)"
    using handle_write_callback_ses [OF written(3)] by simp_all
  have "\<not> unanswered ?s" using i(2) by (auto simp: unanswered_def)
  with i have "first_read B (ses c)" unfolding first_read_def c by (auto dest: notin_set_remove1)
  then show ?thesis using first_reads_resume [OF inv written(4) [symmetric]] by blast
next
  case (time t)
  then show ?thesis using inv by simp
qed simp_all

lemma event_loop_first_reads:
  assumes "event_loop B (Running srv0 w0 lg0) es p" and "first_reads B srv0"
  shows "case p of Running srv w lg \<Rightarrow> first_reads B srv | _ \<Rightarrow> True"
  using assms(1)
proof induction
  case (loop_event es p e p')
  show ?case
  proof (cases p')
    case (Running srv' w' lg')
    moreover obtain srv w lg where "p = Running srv w lg" using loop_event.hyps(2) by (cases p) auto
    ultimately show ?thesis using first_reads_event loop_event by simp
  qed simp_all
qed (simp add: assms(2))

lemma serving_first_reads:
  assumes "server_main bind argv w0 lg = Inr (Serving srv0 lg0)" and "event_loop B (Running srv0 w0 lg0) es (Running srv w lg1)"
    and "i < length (started srv)"
  shows "first_read B (started srv ! i) \<and> buffer (started srv ! i) = received_on i es"
proof -
  have "first_reads B srv0" using serving_accepting [OF assms(1)] by (auto simp: first_reads_def unanswered_def)
  then show ?thesis
    using event_loop_first_reads [OF assms(2)] serving_loop_ok [OF assms(1,2)] assms(3)
    by (auto simp: first_reads_def loop_ok_def loop_inv_def)
qed

end

text \<open>
  C4. A request with a body is never answered. Beast stops at the end of the header, so once the bytes
  of a connection contain a header that announces a body (\<^verbatim>\<open>put\<close> gives no error and
  no complete message), then whatever else the client sends and whatever happens on other connections,
  the session only starts further reads: no write is in flight, the response object is the one of the
  constructor, and the socket stays open.
\<close>

theorem request_with_body_never_answered:
  assumes "beast_put B" and "server_main bind argv w0 lg = Inr (Serving srv0 lg0)"
    and "event_loop B (Running srv0 w0 lg0) es (Running srv w lg1)" and "i < length (started srv)"
    and "prefix buf (received_on i es)" and "parser_put B buf = Put_more"
  shows "pending (started srv ! i) \<in> {[], [Async_Read]} \<and> response (started srv ! i) = make_response status_ok 11 \<and>
    \<not> socket_shutdown (started srv ! i)"
proof -
  have "parser_put B (received_on i es) = Put_more" by (rule beast_put.put_more_prefix [OF assms(1,5,6)])
  then show ?thesis using beast_put.serving_first_reads [OF assms(1-4)] by (auto simp: first_read_def unanswered_def)
qed


section \<open>What can be stored\<close>

text \<open>Every file is an old one or empty.\<close>

definition files_from :: "file_system \<Rightarrow> file_system \<Rightarrow> bool" where
  "files_from fs fs' \<longleftrightarrow> (\<forall>k rd wr txt. nodes fs' k = Some (File rd wr txt) \<longrightarrow> txt = [] \<or> nodes fs k = Some (File rd wr txt))"

lemma files_from_refl [simp]: "files_from fs fs"
  by (simp add: files_from_def)

lemma files_from_trans: "files_from fs fs1 \<Longrightarrow> files_from fs1 fs2 \<Longrightarrow> files_from fs fs2"
  unfolding files_from_def by blast

lemma files_from_set_Dir [simp]: "files_from fs (set_node k Dir fs)"
  by (simp add: files_from_def)

lemma files_from_set_empty [simp]: "files_from fs (set_node k (File rd wr []) fs)"
  by (simp add: files_from_def)

lemma files_from_del [simp]: "files_from fs (del_node k fs)"
  by (simp add: files_from_def)

lemma make_directories_files: "make_directories fs cur cs = Inr fs' \<Longrightarrow> files_from fs fs'"
  by (induction fs cur cs rule: make_directories.induct) (auto split: if_splits option.splits node.splits intro: files_from_trans [OF files_from_set_Dir])

lemma ofstream_write_files: "files_from fs (ofstream_write fs p [])"
  by (simp add: ofstream_write_def split: option.splits node.splits)

lemma FileStorage_write_files: "FileStorage_write base fs e i [] = Inr fs' \<Longrightarrow> files_from fs fs'"
  using make_directories_files ofstream_write_files files_from_trans
  by (fastforce simp: FileStorage_write_def create_directories_def Let_def bind_res_eq_Inr_iff split: if_splits)

lemma FileStorage_remove_files:
  assumes B: "boost_laws B" and rm: "FileStorage_remove B base fs e i = Inr fs'"
  shows "files_from fs fs'"
proof (cases "stat fs (getPath base e i)")
  case None
  then show ?thesis using boost_laws.remove_missing [OF B None] rm by (simp add: FileStorage_remove_def)
next
  case (Some n)
  then obtain k where k: "resolve fs (getPath base e i) = Some k" "nodes fs k = Some n" by (auto simp: stat_def split: option.splits)
  then show ?thesis
    using boost_laws.remove_file [OF B k(1)] boost_laws.remove_empty_directory [OF B k(1)] boost_laws.remove_directory [OF B k(1)] rm
    by (cases n; cases "\<forall>c. nodes fs (k @ [c]) = None") (auto simp: FileStorage_remove_def)
qed

lemma CRUDHandler_files:
  assumes "boost_laws B"
  shows "CRUDHandler_create B base fs e [] = Inr (txt, fs') \<Longrightarrow> files_from fs fs'"
    and "CRUDHandler_update B base fs e i [] = Inr (ok, fs') \<Longrightarrow> files_from fs fs'"
    and "CRUDHandler_delete B base fs e i = Inr (ok, fs') \<Longrightarrow> files_from fs fs'"
  using FileStorage_write_files FileStorage_remove_files [OF assms]
  by (auto simp: CRUDHandler_create_def CRUDHandler_update_def CRUDHandler_delete_def bind_res_eq_Inr_iff split: if_splits)

lemma handleRequest_files:
  assumes B: "boost_laws B" and h: "handleRequest B h req res w = Inr (res', w')" and body: "req_body req = []"
  shows "files_from (disk w) (disk w')"
proof (cases "\<exists>root pfx. h = RequestHandlerAPI root pfx")
  case True
  then obtain root pfx where "api_handler B root pfx req res (disk w) = Inr (res', disk w')" using h by (auto simp: bind_res_eq_Inr_iff)
  then show ?thesis
    using CRUDHandler_files [OF B] body
    by (cases "req_method req") (auto simp: api_defs CRUDHandler_def Let_def bind_res_eq_Inr_iff split: option.splits if_splits)
next
  case False
  then show ?thesis using handleRequest_effects [OF h] by auto
qed


lemma run_one_files:
  assumes B: "beast_put B" and e: "run_one B e (Running srv w lg) = Some (Running srv' w' lg')"
  shows "files_from (disk w) (disk w')"
  using e
proof (cases rule: run_one_cases)
  case (session i x c)
  have "files_from (disk w) (disk (env c))"
    if "handled_by B s t d req h" "handleRequest B h req r w = Inr (r', env c)" for s t d req h r r'
    using handleRequest_files [OF beast_put.axioms(1) [OF B] that(2)] beast_put.put_no_body [OF B] that(1) by (auto simp: handled_by_def)
  then show ?thesis using session(3,6) by (auto simp: resume_def)
qed simp_all

text \<open>
  C9. The only items a client can store are empty. Since a request that reaches a handler has an empty
  body, in every state of the event loop, whatever was sent by whom, every file on the disk is empty or
  was there with the same content when the loop started.
\<close>

theorem stored_items_are_empty:
  assumes "beast_put B" and "event_loop B (Running srv0 w0 lg0) es (Running srv w lg1)"
    and "nodes (disk w) k = Some (File rd wr txt)"
  shows "txt = [] \<or> nodes (disk w0) k = Some (File rd wr txt)"
proof -
  have "files_from (disk w0) (disk w)" if "event_loop B (Running srv0 w0 lg0) es p" "p = Running srv w lg1" for p srv w lg1
    using that
  proof (induction arbitrary: srv w lg1)
    case (loop_event es p e p')
    obtain srv2 w2 lg2 where p: "p = Running srv2 w2 lg2" using loop_event.hyps(2) by (cases p) auto
    show ?case using files_from_trans [OF loop_event.IH [OF p] run_one_files [OF assms(1)]] loop_event.hyps(2) loop_event.prems p by simp
  qed simp
  from this [OF assms(2) refl] assms(3) show ?thesis unfolding files_from_def by blast
qed

section \<open>Instances\<close>

text \<open>A POST with a body, as a client sends it, and a first segment that ends inside the header.\<close>

definition post_header :: string where
  "post_header = ''POST /api/shoes HTTP/1.1'' @ crlf @ ''Content-Length: 5'' @ header_end"

definition half_header :: string where
  "half_header = ''POST /api/shoes HTTP/1.1'' @ crlf @ ''Content-Le''"

lemma header_put_empty: "header_put (\<lambda>_. None) buf = (if sublist header_end buf then Put_more else Put_error ''need more'')"
  using header_part_None [of buf] by (auto simp: header_put_def split: option.split)

lemma header_end_two_lines: "sublist header_end buf \<Longrightarrow> 2 \<le> length (filter (\<lambda>c. c = CHR 0x0D) buf)"
  by (auto simp: sublist_def header_end_def crlf_def)

lemma sample_bytes:
  "header_put (\<lambda>_. None) post_header = Put_more" "header_put (\<lambda>_. None) (post_header @ ''boots'') = Put_more"
  "header_put (\<lambda>_. None) half_header = Put_error ''need more''" "\<not> sublist (crlf @ crlf) (take 4096 half_header)"
proof -
  have "sublist header_end post_header" unfolding post_header_def sublist_def by (metis append.assoc append_Nil2)
  moreover from this have "sublist header_end (post_header @ ''boots'')" unfolding sublist_def by (metis append.assoc)
  moreover have "\<not> sublist header_end half_header" using header_end_two_lines [of half_header] by (auto simp: half_header_def crlf_def)
  moreover have "take 4096 half_header = half_header" by (simp add: half_header_def crlf_def)
  ultimately show "header_put (\<lambda>_. None) post_header = Put_more" "header_put (\<lambda>_. None) (post_header @ ''boots'') = Put_more"
    "header_put (\<lambda>_. None) half_header = Put_error ''need more''" "\<not> sublist (crlf @ crlf) (take 4096 half_header)"
    by (simp_all add: header_put_empty header_end_def)
qed

lemma first_read_run:
  assumes "server_main bind argv w0 lg = Inr (Serving srv0 lg0)" and "deliverable (Inr d)"
    and "\<forall>creds. \<not> authorised B creds d"
  shows "\<exists>srv lg1. event_loop B (Running srv0 w0 lg0) [Accept_Done None, Read_Done 0 (Inr d)] (Running srv w0 lg1) \<and> length (started srv) = 1"
proof -
  obtain srv1 lg1 s where one: "event_loop B (Running srv0 w0 lg0) [Accept_Done None] (Running srv1 w0 lg1)" "started srv1 = [s]"
      "pending s = [Async_Read]"
    using first_connection [OF assms(1)] by blast
  have "buffer s = []" using serving_loop_ok [OF assms(1) one(1)] one(2) by (auto simp: loop_ok_def loop_inv_def received_on_def)
  with assms(3) have "\<not> authorised B (credentials s) (buffer s @ d) \<or> expired_at s (clock w0)" by simp
  then obtain s' where "\<forall>srv i lg. i < length (started srv) \<and> started srv ! i = s \<longrightarrow>
      (\<exists>lg'. run_one B (Read_Done i (Inr d)) (Running srv w0 lg) = Some (Running (srv\<lparr>started := (started srv)[i := s']\<rparr>) w0 lg'))"
    using quiet_read [OF _ assms(2)] one(3) by (metis list.set_intros(1))
  then obtain lg2 where "run_one B (Read_Done 0 (Inr d)) (Running srv1 w0 lg1) = Some (Running (srv1\<lparr>started := (started srv1)[0 := s']\<rparr>) w0 lg2)"
    using one(2) by (metis length_Cons nth_Cons_0 zero_less_Suc)
  from loop_event [OF one(1) this] one(2) show ?thesis
    by (intro exI [of _ "srv1\<lparr>started := (started srv1)[0 := s']\<rparr>"] exI [of _ lg2]) simp
qed

theorem request_with_body_never_answered_witness:
  "\<exists>srv0 lg0 srv lg1. server_main (\<lambda>_. None) [''server'', ''c''] deployed_world None = Inr (Serving srv0 lg0) \<and>
     event_loop (ref_boost (header_put (\<lambda>_. None))) (Running srv0 deployed_world lg0)
       [Accept_Done None, Read_Done 0 (Inr (post_header @ ''boots''))] (Running srv deployed_world lg1) \<and>
     pending (started srv ! 0) \<in> {[], [Async_Read]}"
proof -
  let ?B = "ref_boost (header_put (\<lambda>_. None))"
  obtain srv0 lg0 where s: "server_main (\<lambda>_. None) [''server'', ''c''] deployed_world None = Inr (Serving srv0 lg0)"
    using deployed_serves by blast
  have d: "deliverable (Inr (post_header @ ''boots''))" by (simp add: deliverable_def post_header_def header_end_def crlf_def)
  have "\<forall>creds. \<not> authorised ?B creds (post_header @ ''boots'')" by (simp add: authorised_def sample_bytes)
  from first_read_run [OF s d this] obtain srv lg1 where
    r: "event_loop ?B (Running srv0 deployed_world lg0) [Accept_Done None, Read_Done 0 (Inr (post_header @ ''boots''))] (Running srv deployed_world lg1)"
      "length (started srv) = 1" by blast
  have p: "prefix post_header (received_on 0 [Accept_Done None, Read_Done 0 (Inr (post_header @ ''boots''))])" by (simp add: received_on_def)
  from request_with_body_never_answered [OF ref_put.beast_put_axioms s r(1) _ p] r sample_bytes(1) s show ?thesis by auto
qed


end
