(* ===== verification/Storage_Spec.thy ===== *)
theory Storage_Spec
  imports Beast_Parser
begin

text \<open>
  What the API promises, without paths, files or targets: a finite map from names and ids to data,
  the calls on it and their replies. The API handler on any storage that fulfils \<open>crud_store\<close>
  implements it; so do all connections of the event loop together, for clients that name items the
  way the interface is meant.
\<close>

section \<open>The abstract store\<close>

type_synonym store = "(string \<times> int) \<rightharpoonup> string"

datatype api_call =
    Post_Item string string
  | Get_Item string int
  | List_Items string
  | Put_Item string int string
  | Delete_Item string int
  | Bad_Call

text \<open>
  A call on a store has a reply, a status and a body, and leaves a store. The body of the reply to a
  PUT and to a refused DELETE is not part of the promise.
\<close>

inductive store_call :: "store \<Rightarrow> api_call \<Rightarrow> status \<times> string \<Rightarrow> store \<Rightarrow> bool" where
  post: "is_next_id m n i \<Longrightarrow> store_call m (Post_Item n d) (status_ok, id_json i) (m((n, i) \<mapsto> d))"
| get: "m (n, i) = Some d \<Longrightarrow> store_call m (Get_Item n i) (status_ok, d) m"
| get_missing: "m (n, i) = None \<Longrightarrow> store_call m (Get_Item n i) (status_not_found, ''Invalid Request: file not found'') m"
| list: "is_next_id m n i \<Longrightarrow> store_call m (List_Items n) (status_ok, ''['' @ id_list (nat (i - 1)) @ '']'') m"
| put: "m (n, i) \<noteq> None \<Longrightarrow> store_call m (Put_Item n i d) (status_ok, b) (m((n, i) \<mapsto> d))"
| put_missing: "m (n, i) = None \<Longrightarrow> store_call m (Put_Item n i d) (status_not_found, b) m"
| delete: "m (n, i) \<noteq> None \<Longrightarrow> store_call m (Delete_Item n i) (status_ok, ''successfully deleted'') (m((n, i) := None))"
| delete_missing: "m (n, i) = None \<Longrightarrow> store_call m (Delete_Item n i) (status_not_found, b) m"
| bad: "st \<in> {status_bad_request, status_not_found} \<Longrightarrow> store_call m Bad_Call (st, b) m"

inductive store_run :: "store \<Rightarrow> (api_call \<times> status \<times> string) list \<Rightarrow> store \<Rightarrow> bool" for m where
  idle: "store_run m [] m"
| call: "store_run m cs m' \<Longrightarrow> store_call m' c r m'' \<Longrightarrow> store_run m (cs @ [(c, r)]) m''"

inductive_cases store_callE: "store_call m c r m'"

inductive_simps store_call_simps:
  "store_call m (Post_Item n d) r m'" "store_call m (Get_Item n i) r m'" "store_call m (List_Items n) r m'"
  "store_call m (Put_Item n i d) r m'" "store_call m (Delete_Item n i) r m'" "store_call m Bad_Call r m'"

text \<open>The next store is determined by the call; a call adds at most one item.\<close>

lemma store_call_deterministic: "store_call m c r m1 \<Longrightarrow> store_call m c r' m2 \<Longrightarrow> m1 = m2"
  by (cases c) (auto simp: store_call_simps dest: is_next_id_unique)

lemma store_call_dom: "store_call m c r m' \<Longrightarrow> \<exists>k. dom m' \<subseteq> insert k (dom m)"
  by (erule store_callE) auto

lemma store_call_card:
  assumes "store_call m c r m'" and "finite (dom m)"
  shows "card (dom m') \<le> Suc (card (dom m))"
proof -
  obtain k where "dom m' \<subseteq> insert k (dom m)" using store_call_dom [OF assms(1)] by blast
  then have "card (dom m') \<le> card (insert k (dom m))" using assms(2) by (intro card_mono) simp_all
  also have "\<dots> \<le> Suc (card (dom m))" by (rule card_insert_le_m1) simp_all
  finally show ?thesis .
qed

section \<open>Requests as calls\<close>

text \<open>
  The request that makes a call on the API under the prefix \<open>q\<close>, with names that are plain path
  components and ids in the range of \<^verbatim>\<open>int\<close>. Requests with another method or without a
  readable id make no call.
\<close>

definition is_call :: "boost \<Rightarrow> string \<Rightarrow> string \<Rightarrow> request \<Rightarrow> api_call \<Rightarrow> bool" where
  "is_call B q pfx req c \<longleftrightarrow>
     (case c of
        Post_Item n d \<Rightarrow> plain_name n \<and> req_method req = verb_post \<and> req_target req = q @ ''/'' @ n \<and> d = req_body req
      | Get_Item n i \<Rightarrow> plain_name n \<and> 0 \<le> i \<and> i \<le> INT_MAX \<and> req_method req = verb_get \<and>
          req_target req = q @ ''/'' @ n @ ''/'' @ int_to_string i
      | List_Items n \<Rightarrow> plain_name n \<and> \<not> isdigit (hd n) \<and> req_method req = verb_get \<and> req_target req = q @ ''/'' @ n
      | Put_Item n i d \<Rightarrow> plain_name n \<and> INT_MIN \<le> i \<and> i \<le> INT_MAX \<and> req_method req = verb_put \<and>
          req_target req = q @ ''/'' @ n @ ''/'' @ int_to_string i \<and> d = req_body req
      | Delete_Item n i \<Rightarrow> plain_name n \<and> INT_MIN \<le> i \<and> i \<le> INT_MAX \<and> req_method req = verb_delete \<and>
          req_target req = q @ ''/'' @ n @ ''/'' @ int_to_string i
      | Bad_Call \<Rightarrow> req_method req = verb_other \<or>
          (\<exists>u. removePrefix pfx (req_target req) = Some u \<and> lexical_cast_int B (after_last_slash u) = None \<and>
            (req_method req \<in> {verb_put, verb_delete} \<or> req_method req = verb_get \<and> isdigit (first_char (after_last_slash u)))))"

context api_client
begin

text \<open>Every call is answered as the store promises; the storage moves as the store does.\<close>

lemma api_call_refines:
  assumes inv: "inv s" and pfx: "pfx \<in> {q, q @ ''/''}" and call: "is_call B q pfx req c"
    and room: "int (card (dom (\<alpha> s))) < INT_MAX"
  shows "\<exists>res' s'. RequestHandlerAPI_handleRequest B C pfx req res s = Inr (res', s') \<and> inv s' \<and>
    store_call (\<alpha> s) c (res_result res', res_body res') (\<alpha> s')"
proof (cases c)
  case (Post_Item n d)
  then have n: "plain_name n" "req_method req = verb_post" "req_target req = q @ ''/'' @ n" "d = req_body req"
    using call by (simp_all add: is_call_def)
  obtain i res' s' where "RequestHandlerAPI_handleRequest B C pfx req res s = Inr (res', s')" "is_next_id (\<alpha> s) n i" "inv s'"
      "\<alpha> s' = (\<alpha> s)((n, i) \<mapsto> req_body req)" "res_result res' = status_ok" "res_body res' = id_json i"
    using post_item [OF inv n(1) room n(2,3), of pfx res] by blast
  then show ?thesis using Post_Item n(4) by (auto simp: store_call_simps)
next
  case (Get_Item n i)
  then have n: "plain_name n" "0 \<le> i" "i \<le> INT_MAX" "req_method req = verb_get" "req_target req = q @ ''/'' @ n @ ''/'' @ int_to_string i"
    using call by (simp_all add: is_call_def)
  obtain res' where "RequestHandlerAPI_handleRequest B C pfx req res s = Inr (res', s)"
      "case \<alpha> s (n, i) of
         Some d \<Rightarrow> res_result res' = status_ok \<and> res_body res' = d
       | None \<Rightarrow> res_result res' = status_not_found \<and> res_body res' = ''Invalid Request: file not found''"
    using get_item [OF inv pfx n, of res] by blast
  then show ?thesis using Get_Item inv by (cases "\<alpha> s (n, i)") (auto simp: store_call_simps)
next
  case (List_Items n)
  then have n: "plain_name n" "\<not> isdigit (hd n)" "req_method req = verb_get" "req_target req = q @ ''/'' @ n"
    using call by (simp_all add: is_call_def)
  obtain i where i: "is_next_id (\<alpha> s) n i" using ex_next_id [OF inv] by blast
  then have "i \<le> INT_MAX" using next_id_le_card [OF inv] room by force
  from list_items [OF inv pfx n(1,2) i this n(3,4), of res] show ?thesis
    using List_Items inv i by (auto simp: store_call_simps)
next
  case (Put_Item n i d)
  then have n: "plain_name n" "INT_MIN \<le> i" "i \<le> INT_MAX" "req_method req = verb_put"
      "req_target req = q @ ''/'' @ n @ ''/'' @ int_to_string i" "d = req_body req"
    using call by (simp_all add: is_call_def)
  from put_item [OF inv pfx n(1-5), of res] show ?thesis
    using Put_Item inv n(6) by (cases "\<alpha> s (n, i) = None") (auto simp: store_call_simps)
next
  case (Delete_Item n i)
  then have n: "plain_name n" "INT_MIN \<le> i" "i \<le> INT_MAX" "req_method req = verb_delete"
      "req_target req = q @ ''/'' @ n @ ''/'' @ int_to_string i"
    using call by (simp_all add: is_call_def)
  from delete_item_request [OF inv pfx n, of res] show ?thesis
    using Delete_Item inv by (cases "\<alpha> s (n, i) = None") (auto simp: store_call_simps)
next
  case Bad_Call
  then show ?thesis using call inv by (auto simp: is_call_def store_call_simps api_defs Let_def)
qed

end

section \<open>The API handler on files\<close>

text \<open>
  C7. The API handler on the file storage implements the abstract store, for every call at once: from a
  storage that fulfils its invariant and has room for another id, the request of any call returns without
  a fault, keeps the invariant, and its status, its body and the new content of the storage are those of
  the abstract call.
\<close>

theorem API_refines_store:
  assumes "boost_laws B" and "store_inv b r fs" and "pfx \<in> {q, q @ ''/''}" and "is_call B q pfx req c"
    and "int (card (dom (store_abs r fs))) < INT_MAX"
  shows "\<exists>res' fs'. api_handler B (b @ ''/'') pfx req res fs = Inr (res', fs') \<and> store_inv b r fs' \<and>
    store_call (store_abs r fs) c (res_result res', res_body res') (store_abs r fs')"
  using api_client.api_call_refines [OF api_client_CRUDHandler [OF assms(1)], where req = req and c = c] assms(2-5) by blast

theorem API_refines_store_witness:
  "\<exists>res' fs'. api_handler (ref_boost (\<lambda>_. Put_more)) (''/srv'' @ ''/'') ''/api''
       (sample_request verb_delete (''/api'' @ ''/'' @ ''shoes'' @ ''/'' @ int_to_string 1) []) (make_response status_ok 11) sample_fs_item =
     Inr (res', fs') \<and> res_result res' = status_ok \<and> store_abs [''srv''] fs' (''shoes'', 1) = None"
proof -
  let ?req = "sample_request verb_delete (''/api'' @ ''/'' @ ''shoes'' @ ''/'' @ int_to_string 1) []" and ?B = "ref_boost (\<lambda>_. Put_more)"
  note [simp] = store_inv_sample_item(2) store_abs_sample
  have "is_call ?B ''/api'' ''/api'' ?req (Delete_Item ''shoes'' 1)" using plain_shoes by (simp add: is_call_def INT_MIN_def INT_MAX_def)
  from API_refines_store [OF ref.boost_laws_axioms store_inv_sample_item(1) _ this, of "make_response status_ok 11"]
  show ?thesis by (auto simp: INT_MAX_def store_call_simps)
qed

section \<open>Runs of the store\<close>

lemma store_run_finite:
  assumes "store_run m cs m'" and "finite (dom m)"
  shows "finite (dom m') \<and> card (dom m') \<le> card (dom m) + length cs"
  using assms
proof induction
  case (call cs m' c r m'')
  then have "finite (dom m')" "card (dom m') \<le> card (dom m) + length cs" by simp_all
  moreover from this have "finite (dom m'')" using store_call_dom [OF call.hyps(2)] by (metis finite.insertI finite_subset)
  ultimately show ?case using store_call_card [OF call.hyps(2)] by simp
qed simp

text \<open>An item stays as it is until a call replaces or deletes it.\<close>

lemma store_call_keeps:
  assumes "store_call m c r m'" and "m (n, i) = Some d" and "\<forall>d'. c \<noteq> Put_Item n i d'" and "c \<noteq> Delete_Item n i"
  shows "m' (n, i) = Some d"
  using assms by (cases c) (auto simp: store_call_simps is_next_id_def)

lemma store_run_keeps:
  assumes "store_run m cs m'" and "m (n, i) = Some d" and "\<forall>(c, r)\<in>set cs. (\<forall>d'. c \<noteq> Put_Item n i d') \<and> c \<noteq> Delete_Item n i"
  shows "m' (n, i) = Some d"
  using assms by induction (auto intro: store_call_keeps)

end
