(* ===== verification/Shipped_Server.thy ===== *)
theory Shipped_Server
  imports Storage_Spec
begin

text \<open>
  The server with the text of \<^verbatim>\<open>configs/example_config3.conf\<close> as its configuration:
  its users, handlers and authorization time, and a single API request as an event of its loop.
\<close>

section \<open>Serving the details of a configuration\<close>

lemma serving_details:
  assumes "server_main bind argv w lg = Inr (Serving srv lg')"
    and "Parse_file (disk w) (argv ! 1) (NginxConfig []) = Inr (True, config)"
  shows "smap_inv (srv_dispatcher srv)" and "map_of (srv_dispatcher srv) = [''/'' \<mapsto> RequestHandler404] ++ registered config"
    and "get_credentials config = Inr (srv_credentials srv)"
proof -
  obtain lg0 where "main_port bind config w lg0 = Inr (Serving srv lg')"
    using server_main_Serving [OF assms(1)] assms(2) by auto
  then obtain port t creds lg1 lg2 where m: "get_credentials config = Inr creds"
      "new_server bind (word_of_int port) config creds (word_of_int t) w lg1 = Inr (Constructed srv lg2)"
    using main_serve_Serving main_auth_time_Serving main_port_Serving by metis
  then show "get_credentials config = Inr (srv_credentials srv)" using new_server_inv [OF m(2)] by simp
  obtain lg3 where "RequestHandlerDispatcher config lg1 = Inr (srv_dispatcher srv, lg3)" using new_server_inv [OF m(2)] by blast
  from RequestHandlerDispatcher_Inr [OF Parse_file_wf [OF assms(2)] this]
  show "smap_inv (srv_dispatcher srv)" "map_of (srv_dispatcher srv) = [''/'' \<mapsto> RequestHandler404] ++ registered config" by blast+
qed

lemma example_handlers_map: "map_of example_handlers = [''/'' \<mapsto> RequestHandler404] ++ registered example_config3"
  by (rule RequestHandlerDispatcher_Inr(2) [OF example_config3_wf example_config3_dispatcher])

lemma strip_no_slash: "s \<noteq> [] \<Longrightarrow> last s \<noteq> CHR ''/'' \<Longrightarrow> strip_trailing_slashes s = s"
  by (subst strip_trailing_slashes.simps) simp

lemma api_target_handler:
  assumes "smap_inv hs" and "map_of hs = map_of example_handlers" and "t \<noteq> []" and "last t \<noteq> CHR ''/''"
  shows "getRequestHandler hs (''/api/'' @ t) = Some (RequestHandlerAPI ''./api_storage/'' ''/api'')"
proof -
  have "strip_trailing_slashes (''/api/'' @ t) = ''/api/'' @ t" using assms(3,4) by (intro strip_no_slash) simp_all
  moreover have "fst ` set hs = fst ` set example_handlers"
    using arg_cong [OF assms(2), of dom] by (simp add: dom_map_of_conv_image_fst)
  then have "longest_match hs (''/api/'' @ t) ''/api''"
    by (simp add: longest_match_def example_handlers_def)
  moreover have "map_of hs ''/api'' = Some (RequestHandlerAPI ''./api_storage/'' ''/api'')"
    using assms(2) by (simp add: example_handlers_def)
  ultimately show ?thesis using getRequestHandler_iff [OF assms(1)] by auto
qed

text \<open>
  A session of a server started with the text of \<^verbatim>\<open>example_config3.conf\<close>: the header a
  client sends for a configured user is valid, the session is live for 1800 whole seconds, and
  targets under \<^verbatim>\<open>/api/\<close> reach the API handler.
\<close>

definition shipped_users :: "(string \<times> string) set" where
  "shipped_users = {(''tariq'', ''123''), (''milly'', ''456''), (''shravan'', ''789''), (''umer'', ''101'')}"

lemma shipped_session:
  assumes serve: "server_main bind [prog, f] w lg = Inr (Serving srv lg')" and conf: "ifstream_read (disk w) f = Some example_config3_text"
    and ses: "session_of srv now s"
  shows "(u, p) \<in> shipped_users \<Longrightarrow> valid_header (credentials s) (''Basic '' @ base64_encode (u @ '':'' @ p))"
    and "now < last_auth_time s + 1801 * 1000000000 \<Longrightarrow> \<not> expired_at s now"
    and "t \<noteq> [] \<Longrightarrow> last t \<noteq> CHR ''/'' \<Longrightarrow>
      getRequestHandler (dispatcher s) (''/api/'' @ t) = Some (RequestHandlerAPI ''./api_storage/'' ''/api'')"
proof -
  have pf: "Parse_file (disk w) ([prog, f] ! 1) (NginxConfig []) = Inr (True, example_config3)"
    by (simp add: Parse_file_def conf Parse_example_config3)
  note details = serving_details [OF serve pf]
  have creds: "srv_credentials srv = [''tariq'' \<mapsto> ''123'', ''milly'' \<mapsto> ''456'', ''shravan'' \<mapsto> ''789'', ''umer'' \<mapsto> ''101'']"
    using details(3) unfolding example_config3_credentials by simp
  show "valid_header (credentials s) (''Basic '' @ base64_encode (u @ '':'' @ p))" if "(u, p) \<in> shipped_users"
    using that ses creds by (intro valid_header_encoded) (auto simp: session_of_def shipped_users_def)
  have "sint (auth_time s) = 1800"
    using serving_auth_time [OF serve pf example_config3_auth_time] ses by (simp add: session_of_def)
  then show "\<not> expired_at s now" if "now < last_auth_time s + 1801 * 1000000000"
    using duration_seconds_less [of "now - last_auth_time s" 1800] ses that by (simp add: expired_at_def session_of_def)
  show "getRequestHandler (dispatcher s) (''/api/'' @ t) = Some (RequestHandlerAPI ''./api_storage/'' ''/api'')"
    if "t \<noteq> []" "last t \<noteq> CHR ''/''"
    using api_target_handler [OF _ _ that, of "dispatcher s"] details(1,2) example_handlers_map ses by (simp add: session_of_def)
qed

section \<open>From the configuration file to the stored item\<close>

text \<open>
  A connection that is about to deliver, with the bytes \<open>d\<close>, the complete request \<open>req\<close>
  of a configured user: it waits for data and has been live for at most 1800 whole seconds.
\<close>

definition delivers :: "boost \<Rightarrow> server \<Rightarrow> world \<Rightarrow> nat \<Rightarrow> string \<Rightarrow> request \<Rightarrow> bool" where
  "delivers B srv w i d req \<longleftrightarrow> waits_for srv i Async_Read \<and> deliverable (Inr d) \<and>
     clock w < last_auth_time (started srv ! i) + 1801 * 1000000000 \<and>
     parser_put B (buffer (started srv ! i) @ d) = Put_done req \<and>
     (\<exists>(u, p)\<in>shipped_users. fields_find B field_authorization (req_fields req) = Some (''Basic '' @ base64_encode (u @ '':'' @ p)))"

text \<open>Such a request under \<^verbatim>\<open>/api/\<close> is one event of the loop, which the API handler answers.\<close>

lemma shipped_api_event:
  assumes serve: "server_main bind [prog, f] w0 lg = Inr (Serving srv0 lg0)" and conf: "ifstream_read (disk w0) f = Some example_config3_text"
    and ses: "runs_as B srv0 w (started srv ! i)" and del: "delivers B srv w i d req"
    and target: "req_target req = ''/api/'' @ t" "t \<noteq> []" "last t \<noteq> CHR ''/''"
    and api: "api_handler B ''./api_storage/'' ''/api'' req (response (started srv ! i)) (disk w) = Inr (r, fs)"
  shows "\<exists>srv' lg'. run_one B (Read_Done i (Inr d)) (Running srv w lg1) = Some (Running srv' (w\<lparr>disk := fs\<rparr>) lg') \<and>
    length (started srv') = length (started srv) \<and> response (started srv' ! i) = r \<and> Async_Write \<in> set (pending (started srv' ! i)) \<and>
    (\<forall>j. j \<noteq> i \<longrightarrow> started srv' ! j = started srv ! j)"
proof -
  note shipped = shipped_session [OF serve conf runs_as_safe(1) [OF ses], simplified]
  have i: "waits_for srv i Async_Read" "deliverable (Inr d)" "parser_put B (buffer (started srv ! i) @ d) = Put_done req"
      "\<not> expired_at (started srv ! i) (clock w)" and len: "i < length (started srv)"
    using del shipped(2) by (auto simp: delivers_def waits_for_def)
  have "authorised B (credentials (started srv ! i)) (buffer (started srv ! i) @ d)"
    using del shipped(1) by (auto simp: delivers_def authorised_def)
  moreover have "getRequestHandler (dispatcher (started srv ! i)) (req_target req) = Some (RequestHandlerAPI ''./api_storage/'' ''/api'')"
    using shipped(3) [OF target(2,3)] target(1) by simp
  moreover have "handleRequest B (RequestHandlerAPI ''./api_storage/'' ''/api'') req (response (started srv ! i)) w = Inr (r, w\<lparr>disk := fs\<rparr>)"
    using api by simp
  ultimately obtain lg' where run: "run_one B (Read_Done i (Inr d)) (Running srv w lg1) =
      Some (Running (srv\<lparr>started := (started srv)[i := (started srv ! i)\<lparr>buffer := buffer (started srv ! i) @ d, last_auth_time := clock w,
        response := r, pending := remove1 Async_Read (pending (started srv ! i)) @ [Async_Write]\<rparr>]\<rparr>) (w\<lparr>disk := fs\<rparr>) lg')"
    using run_authorised [OF i(1,2) refl _ i(4,3)] by blast
  show ?thesis by (intro exI conjI, rule run) (use len in simp_all)
qed

lemma shipped_post_event:
  assumes B: "boost_laws B" and serve: "server_main bind [prog, f] w0 lg = Inr (Serving srv0 lg0)"
    and conf: "ifstream_read (disk w0) f = Some example_config3_text" and ses: "runs_as B srv0 w (started srv ! i)"
    and post: "delivers B srv w i d req" "req_method req = verb_post" "req_target req = ''/api/'' @ n" "plain_name n"
    and store: "store_inv ''./api_storage'' r (disk w)" "int (card (dom (store_abs r (disk w)))) < INT_MAX"
      "is_next_id (store_abs r (disk w)) n k"
  shows "\<exists>srv1 fs lg2. run_one B (Read_Done i (Inr d)) (Running srv w lg1) = Some (Running srv1 (w\<lparr>disk := fs\<rparr>) lg2) \<and>
    length (started srv1) = length (started srv) \<and> (\<forall>j. j \<noteq> i \<longrightarrow> started srv1 ! j = started srv ! j) \<and>
    Async_Write \<in> set (pending (started srv1 ! i)) \<and> res_result (response (started srv1 ! i)) = status_ok \<and>
    res_body (response (started srv1 ! i)) = id_json k \<and> k \<le> INT_MAX \<and> store_inv ''./api_storage'' r fs \<and>
    store_abs r fs = (store_abs r (disk w))((n, k) \<mapsto> req_body req)"
proof -
  note post_item = api_client.post_item [OF api_client_CRUDHandler [OF B, of "''./api_storage''" r], where q = "''/api''"
      and pfx = "''/api''" and n = n and req = req and s = "disk w" and res = "response (started srv ! i)"]
  obtain r1 fs where p: "api_handler B ''./api_storage/'' ''/api'' req (response (started srv ! i)) (disk w) = Inr (r1, fs)"
      "k \<le> INT_MAX" "store_inv ''./api_storage'' r fs" "store_abs r fs = (store_abs r (disk w))((n, k) \<mapsto> req_body req)"
      "res_result r1 = status_ok" "res_body r1 = id_json k"
    using post_item [OF store(1) post(4) store(2) post(2)] post(3) is_next_id_unique [OF store(3)] by auto
  have "n \<noteq> []" "last n \<noteq> CHR ''/''" using post(4) plain_name_last by (auto simp: plain_name_def)
  from shipped_api_event [OF serve conf ses post(1,3) this p(1), of lg1] p(2-6) show ?thesis by blast
qed

section \<open>A GET of a stored item\<close>

lemma shipped_get_event:
  assumes B: "boost_laws B" and serve: "server_main bind [prog, f] w0 lg = Inr (Serving srv0 lg0)"
    and conf: "ifstream_read (disk w0) f = Some example_config3_text" and ses: "runs_as B srv0 w (started srv ! j)"
    and get: "delivers B srv w j d req" "req_method req = verb_get" "req_target req = ''/api/'' @ n @ ''/'' @ int_to_string i"
    and store: "store_inv ''./api_storage'' r (disk w)" "store_abs r (disk w) (n, i) = Some x" and i: "0 \<le> i" "i \<le> INT_MAX"
  shows "\<exists>srv' lg'. run_one B (Read_Done j (Inr d)) (Running srv w lg1) = Some (Running srv' w lg') \<and>
    Async_Write \<in> set (pending (started srv' ! j)) \<and> res_result (response (started srv' ! j)) = status_ok \<and>
    res_body (response (started srv' ! j)) = x"
proof -
  note get_item = api_client.get_item [OF api_client_CRUDHandler [OF B, of "''./api_storage''" r], where q = "''/api''" and pfx = "''/api''"
      and n = n and req = req and s = "disk w" and i = i and res = "response (started srv ! j)"]
  have n: "plain_name n" using store(2) by (auto simp: store_abs_def split: if_splits)
  obtain res' where g: "api_handler B ''./api_storage/'' ''/api'' req (response (started srv ! j)) (disk w) = Inr (res', disk w)"
      "res_result res' = status_ok" "res_body res' = x"
    using get_item [OF store(1) _ n i get(2)] get(3) store(2) by auto
  have "n @ ''/'' @ int_to_string i \<noteq> []" "last (n @ ''/'' @ int_to_string i) \<noteq> CHR ''/''" by simp_all
  from shipped_api_event [OF serve conf ses get(1,3) this g(1), of lg1] g(2,3) show ?thesis by (auto simp del: run_one.simps)
qed

end
