(* ===== verification/Connections.thy ===== *)
theory Connections
  imports Event_Loop_Safety
begin

text \<open>
  One connection of the event loop over time: it has at most one read in flight, it keeps its
  response once it reads no more, and its authorization clock starts when the accept before its own
  completes.
\<close>

section \<open>Runs\<close>

inductive_cases event_loop_emptyE: "event_loop B p [] q"
inductive_cases event_loop_snocE: "event_loop B p (es @ [e]) q"

lemma event_loop_deterministic: "event_loop B p es q \<Longrightarrow> event_loop B p es q' \<Longrightarrow> q = q'"
proof (induction arbitrary: q' rule: event_loop.induct)
  case loop_starts
  then show ?case by (auto elim: event_loop_emptyE)
next
  case (loop_event es q1 e q2)
  from loop_event.prems obtain q1' where "event_loop B p es q1'" "run_one B e q1' = Some q'"
    by (auto elim: event_loop_snocE)
  then show ?case using loop_event.IH loop_event.hyps(2) by force
qed

lemma event_loop_split:
  assumes "event_loop B p (es @ es') q"
  shows "\<exists>p'. event_loop B p es p' \<and> event_loop B p' es' q"
  using assms
proof (induction es' arbitrary: q rule: rev_induct)
  case Nil
  then show ?case using loop_starts by auto
next
  case (snoc e es')
  from snoc.prems [unfolded append_assoc [symmetric]] obtain q' where q': "event_loop B p (es @ es') q'" "run_one B e q' = Some q"
    by (rule event_loop_snocE) auto
  from snoc.IH [OF q'(1)] show ?case using loop_event q'(2) by blast
qed

lemma event_loop_Running:
  assumes "event_loop B p es (Running srv w lg)"
  shows "\<exists>srv0 w0 lg0. p = Running srv0 w0 lg0"
proof (cases "es = []")
  case True
  then show ?thesis using assms by (auto elim: event_loop_emptyE)
next
  case False
  then obtain e es' where "es = [e] @ es'" by (cases es) auto
  then obtain p' where "event_loop B p ([] @ [e]) p'" using event_loop_split assms by fastforce
  then obtain q where "event_loop B p [] q" "run_one B e q = Some p'" by (rule event_loop_snocE) auto
  then show ?thesis by (cases q) (auto elim: event_loop_emptyE)
qed

section \<open>Reads of a connection\<close>

lemma runs_as_read_once:
  assumes "runs_as B srv0 w s"
  shows "Async_Read \<notin> set (remove1 Async_Read (pending s))"
proof -
  have "count_list (pending s) Async_Read \<le> 1" using assms session_reaches_reads by (auto simp: runs_as_def)
  then have "count_list (remove1 Async_Read (pending s)) Async_Read = 0" by (simp add: count_list_remove1)
  then show ?thesis by (simp only: count_list_0_iff not_False_eq_True)
qed

text \<open>A connection that reads no more keeps its response.\<close>

definition quiet :: "server \<Rightarrow> nat \<Rightarrow> bool" where
  "quiet srv i \<longleftrightarrow> i < length (started srv) \<and> Async_Read \<notin> set (pending (started srv ! i))"

lemma quiet_event:
  assumes "run_one B e (Running srv w lg) = Some (Running srv' w' lg')" and "quiet srv i"
  shows "quiet srv' i \<and> response (started srv' ! i) = response (started srv ! i)"
  using assms(1)
proof (cases rule: run_one_event)
  case (accepted error s ss srv2 lg2)
  then show ?thesis using handle_accept_eq [of w s error "srv\<lparr>accepting := ss\<rparr>" lg] assms(2) by (auto simp: quiet_def nth_append)
next
  case (read j completion ret c)
  then show ?thesis using assms(2) by (cases "j = i") (auto simp: quiet_def waits_for_def resume_def)
next
  case (written j error code c)
  then show ?thesis
    using assms(2) handle_write_callback_ses [OF written(3)]
    by (cases "j = i") (auto simp: quiet_def waits_for_def resume_def dest: notin_set_remove1)
qed (use assms(2) in \<open>simp_all add: quiet_def\<close>)

text \<open>A request that a handler answers, as one event of the loop: the connection reads no more.\<close>

lemma run_handled:
  assumes "waits_for srv i Async_Read" and "deliverable (Inr d)" and "runs_as B srv0 w (started srv ! i)"
    and "handled_by B (started srv ! i) (clock w) d req h" and "handleRequest B h req (response (started srv ! i)) w = Inr (r, w')"
  obtains srv' lg' where "run_one B (Read_Done i (Inr d)) (Running srv w lg) = Some (Running srv' w' lg')"
    "quiet srv' i" "response (started srv' ! i) = r" "Async_Write \<in> set (pending (started srv' ! i))"
    "length (started srv') = length (started srv)" "\<And>j. j \<noteq> i \<Longrightarrow> started srv' ! j = started srv ! j"
proof -
  let ?s = "(started srv ! i)\<lparr>buffer := buffer (started srv ! i) @ d, last_auth_time := clock w, response := r,
      pending := remove1 Async_Read (pending (started srv ! i)) @ [Async_Write]\<rparr>"
  from run_authorised [OF assms(1,2) refl _ _ _ _ assms(5), of lg] assms(4) obtain lg' where
    "run_one B (Read_Done i (Inr d)) (Running srv w lg) = Some (Running (srv\<lparr>started := (started srv)[i := ?s]\<rparr>) w' lg')"
    by (auto simp: handled_by_def simp del: run_one.simps)
  then show thesis
    by (rule that) (use assms(1) runs_as_read_once [OF assms(3)] in \<open>simp_all add: quiet_def waits_for_def\<close>)
qed

section \<open>The authorization clock\<close>

text \<open>
  The session for the next connection is constructed when the server starts or completes an accept.
\<close>

lemma waiting_session_clock:
  assumes "server_main bind argv w0 lg = Inr (Serving srv0 lg0)" and "event_loop B (Running srv0 w0 lg0) es (Running srv w lg1)"
    and "es = [] \<or> (\<exists>es' error. es = es' @ [Accept_Done error])"
  shows "\<exists>s. accepting srv = [s] \<and> last_auth_time s = clock w \<and> response s = make_response status_ok 11 \<and> buffer s = [] \<and> pending s = []"
proof (cases "es = []")
  case True
  then have "srv = srv0 \<and> w = w0" using assms(2) by (auto elim: event_loop_emptyE)
  then show ?thesis using serving_accepting(2) [OF assms(1)] by auto
next
  case False
  then obtain es' error where e: "es = es' @ [Accept_Done error]" using assms(3) by blast
  then obtain p where es: "event_loop B (Running srv0 w0 lg0) es' p" "run_one B (Accept_Done error) p = Some (Running srv w lg1)"
    using event_loop_snocE [OF assms(2) [unfolded e]] by metis
  obtain srv1 w1 lg2 where p: "p = Running srv1 w1 lg2" using es(2) by (cases p) auto
  obtain s where "accepting srv1 = [s]"
    using serving_loop_ok [OF assms(1) es(1)] by (auto simp: p loop_ok_def loop_inv_def)
  then show ?thesis
    using es(2) handle_accept_eq [of w1 s error "srv1\<lparr>accepting := []\<rparr>" lg2] by (auto simp: p new_session_def)
qed

lemma accepting_kept:
  assumes "event_loop B (Running srv1 w1 lg1) es (Running srv w lg)" and "\<forall>error. Accept_Done error \<notin> set es"
  shows "accepting srv = accepting srv1 \<and> length (started srv) = length (started srv1)"
proof -
  have "case p of Running srv w lg \<Rightarrow> accepting srv = accepting srv1 \<and> length (started srv) = length (started srv1) | _ \<Rightarrow> True"
    if "event_loop B (Running srv1 w1 lg1) es p" for p
    using that assms(2)
  proof induction
    case (loop_event es p e p')
    obtain srv w lg where p: "p = Running srv w lg" using loop_event.hyps(2) by (cases p) auto
    have same: "accepting srv = accepting srv1 \<and> length (started srv) = length (started srv1)" using loop_event.IH loop_event.prems by (simp add: p)
    from loop_event.hyps(2) [unfolded p] show ?case
      by (cases rule: run_one_event) (use same loop_event.prems in \<open>auto simp: resume_def\<close>)
  qed simp
  from this [OF assms(1)] show ?thesis by simp
qed

text \<open>Until its first complete request a connection keeps the clock and the response it was constructed with.\<close>

definition untouched :: "int \<Rightarrow> nat \<Rightarrow> event list \<Rightarrow> server \<Rightarrow> bool" where
  "untouched t i es srv \<longleftrightarrow> i < length (started srv) \<and> last_auth_time (started srv ! i) = t \<and>
     response (started srv ! i) = make_response status_ok 11 \<and> buffer (started srv ! i) = received_on i es"

definition incomplete_on :: "boost \<Rightarrow> nat \<Rightarrow> event list \<Rightarrow> bool" where
  "incomplete_on B i es \<longleftrightarrow>
     (\<forall>es' d. prefix (es' @ [Read_Done i (Inr d)]) es \<longrightarrow> parser_put B (received_on i es' @ d) = Put_more)"

lemma untouched_event:
  assumes "run_one B e (Running srv w lg) = Some (Running srv' w' lg')" and "untouched t i es srv" and "incomplete_on B i (es @ [e])"
  shows "untouched t i (es @ [e]) srv'"
  using assms(1)
proof (cases rule: run_one_event)
  case (accepted error s ss srv2 lg2)
  then show ?thesis
    using handle_accept_eq [of w s error "srv\<lparr>accepting := ss\<rparr>" lg] assms(2) by (auto simp: untouched_def nth_append)
next
  case (read j completion ret c)
  show ?thesis
  proof (cases "j = i")
    case True
    show ?thesis
    proof (cases completion)
      case (Inl msg)
      then show ?thesis using read_callback_error(2) read assms(2) True by (auto simp: untouched_def resume_def)
    next
      case (Inr d)
      then have "parser_put B (received_on i es @ d) = Put_more"
        using assms(3) read(1) True by (auto simp: incomplete_on_def)
      then show ?thesis
        using read assms(2) True Inr by (auto simp: untouched_def resume_def handle_read_callback_def Let_def)
    qed
  qed (use read assms(2) in \<open>cases completion; auto simp: untouched_def resume_def\<close>)
next
  case (written j error code c)
  then show ?thesis
    using assms(2)
    by (cases "j = i") (auto simp: untouched_def resume_def handle_write_callback_def Let_def split: option.splits)
qed (use assms(2) in \<open>simp_all add: untouched_def\<close>)

lemma untouched_run:
  assumes "event_loop B (Running srv1 w1 lg1) es (Running srv w lg)" and "untouched t i [] srv1" and "incomplete_on B i es"
  shows "untouched t i es srv"
proof -
  have "case p of Running srv w lg \<Rightarrow> untouched t i es srv | _ \<Rightarrow> True" if "event_loop B (Running srv1 w1 lg1) es p" for p
    using that assms(3)
  proof induction
    case loop_starts
    then show ?case using assms(2) by simp
  next
    case (loop_event es p e p')
    obtain srv w lg where p: "p = Running srv w lg" using loop_event.hyps(2) by (cases p) auto
    have "incomplete_on B i es" using loop_event.prems unfolding incomplete_on_def using prefix_prefix by blast
    then have "untouched t i es srv" using loop_event.IH by (simp add: p)
    from untouched_event [OF _ this loop_event.prems] loop_event.hyps(2) show ?case by (cases p') (auto simp: p simp del: run_one.simps)
  qed
  from this [OF assms(1)] show ?thesis by simp
qed

text \<open>A complete request on an expired session, as one event of the loop.\<close>

lemma run_expired:
  assumes "waits_for srv i Async_Read" and "deliverable (Inr d)" and "expired_at (started srv ! i) (clock w)"
    and "parser_put B (buffer (started srv ! i) @ d) = Put_done req"
  shows "\<exists>srv' lg'. run_one B (Read_Done i (Inr d)) (Running srv w lg) = Some (Running srv' w lg') \<and>
    Async_Write \<in> set (pending (started srv' ! i)) \<and> response (started srv' ! i) = unauthorized_response B"
proof -
  let ?c = "complete Async_Read (connection_of srv i w lg)"
  obtain c' where "handle_read_callback B (Inr d) ?c = Inr (Some 1, c')" "env c' = w"
      "Async_Write \<in> set (pending (ses c')) \<and> response (ses c') = unauthorized_response B"
    using read_expired [of ?c B d req] assms(3,4) by auto
  then show ?thesis using assms(1,2) by (simp add: resume_def waits_for_def)
qed

lemma first_request_state:
  assumes serve: "server_main bind argv w0 lg = Inr (Serving srv0 lg0)"
    and start: "event_loop B (Running srv0 w0 lg0) es0 (Running srv1 w1 lg1)" "es0 = [] \<or> (\<exists>es error. es0 = es @ [Accept_Done error])"
    and life: "event_loop B (Running srv1 w1 lg1) (es1 @ [Accept_Done None] @ es2) (Running srv w lg2)"
      "\<forall>error. Accept_Done error \<notin> set es1" "i = length (started srv1)" "incomplete_on B i es2"
  shows "untouched (clock w1) i es2 srv" and "runs_as B srv0 w (started srv ! i)"
proof -
  obtain s where s: "accepting srv1 = [s]" "last_auth_time s = clock w1" "response s = make_response status_ok 11" "buffer s = []"
    using waiting_session_clock [OF serve start] by blast
  obtain p p' where p: "event_loop B (Running srv1 w1 lg1) es1 p" "event_loop B p [Accept_Done None] p'" "event_loop B p' es2 (Running srv w lg2)"
    using event_loop_split [OF life(1)] event_loop_split by metis
  obtain srv3 w3 lg3 where p': "p' = Running srv3 w3 lg3" using event_loop_Running [OF p(3)] by blast
  obtain srv2 w2 lg4 where p2: "p = Running srv2 w2 lg4" using event_loop_Running p(2) unfolding p' by blast
  have "run_one B (Accept_Done None) (Running srv2 w2 lg4) = Some (Running srv3 w3 lg3)"
    using event_loop_snocE [of B p "[]" "Accept_Done None" p'] p(2) by (auto simp: p2 p' elim: event_loop_emptyE simp del: run_one.simps)
  then have "untouched (clock w1) i [] srv3"
    using accepting_kept [OF p(1) [unfolded p2] life(2)] handle_accept_eq [of w2 s None "srv2\<lparr>accepting := []\<rparr>" lg4] s life(3)
    by (auto simp: untouched_def nth_append)
  from untouched_run [OF p(3) [unfolded p'] this life(4)] show "untouched (clock w1) i es2 srv" .
  then have "i < length (started srv)" by (simp add: untouched_def)
  then show "runs_as B srv0 w (started srv ! i)"
    using serving_loop_ok [OF serve event_loop_append [OF start(1) life(1)]] by (simp add: loop_ok_def loop_inv_def)
qed

text \<open>
  C35. The authorization clock of a connection starts before the client connects: when the accept
  before its own completes, or when the server starts. Whatever happens between that moment (world
  \<open>w1\<close>), the accept of connection \<open>i\<close> and its first complete request with a valid
  credential (world \<open>w\<close>), and in however many pieces the request arrives, it is answered by its
  handler if less than the configured time and one second has passed since \<open>w1\<close>, and otherwise
  with 401, no handler having run.
\<close>

theorem first_request_clock:
  assumes serve: "server_main bind argv w0 lg = Inr (Serving srv0 lg0)"
    and start: "event_loop B (Running srv0 w0 lg0) es0 (Running srv1 w1 lg1)" "es0 = [] \<or> (\<exists>es error. es0 = es @ [Accept_Done error])"
    and life: "event_loop B (Running srv1 w1 lg1) (es1 @ [Accept_Done None] @ es2) (Running srv w lg2)"
      "\<forall>error. Accept_Done error \<notin> set es1" "i = length (started srv1)" "incomplete_on B i es2"
    and req: "waits_for srv i Async_Read" "deliverable (Inr d)" "parser_put B (received_on i es2 @ d) = Put_done req"
      "fields_find B field_authorization (req_fields req) = Some hdr" "valid_header (srv_credentials srv0) hdr"
    and h: "getRequestHandler (srv_dispatcher srv0) (req_target req) = Some h"
      "handleRequest B h req (make_response status_ok 11) w = Inr (r, w')"
  shows "\<exists>srv' lg'. run_one B (Read_Done i (Inr d)) (Running srv w lg2) =
      Some (Running srv' (if clock w < clock w1 + (sint (srv_auth_time srv0) + 1) * 1000000000 then w' else w) lg') \<and>
    Async_Write \<in> set (pending (started srv' ! i)) \<and>
    response (started srv' ! i) =
      (if clock w < clock w1 + (sint (srv_auth_time srv0) + 1) * 1000000000 then r else unauthorized_response B)"
proof -
  note runs = first_request_state(2) [OF serve start life]
  have fresh: "last_auth_time (started srv ! i) = clock w1" "response (started srv ! i) = make_response status_ok 11"
      "buffer (started srv ! i) = received_on i es2"
    using first_request_state(1) [OF serve start life] by (simp_all add: untouched_def)
  have conf: "dispatcher (started srv ! i) = srv_dispatcher srv0" "credentials (started srv ! i) = srv_credentials srv0"
      "auth_time (started srv ! i) = srv_auth_time srv0" "clock w1 \<le> clock w"
    using runs_as_safe(1) [OF runs] fresh(1) by (simp_all add: session_of_def)
  have expired: "expired_at (started srv ! i) (clock w) \<longleftrightarrow> \<not> clock w < clock w1 + (sint (srv_auth_time srv0) + 1) * 1000000000"
    using duration_seconds_less [of "clock w - clock w1" "sint (srv_auth_time srv0)"] conf(3,4) fresh(1) by (auto simp: expired_at_def)
  show ?thesis
  proof (cases "clock w < clock w1 + (sint (srv_auth_time srv0) + 1) * 1000000000")
    case True
    then have "handled_by B (started srv ! i) (clock w) d req h" using expired req h(1) fresh conf by (simp add: handled_by_def authorised_def)
    from run_handled [OF req(1,2) runs this, of r w' lg2] h(2) fresh(2) True show ?thesis by (simp del: run_one.simps) blast
  next
    case False
    then show ?thesis using run_expired [OF req(1,2), of w B req lg2] expired req(3) fresh(3) by (simp del: run_one.simps)
  qed
qed

end
