(* ===== verification/Shipped_Storage.thy ===== *)
theory Shipped_Storage
  imports Shipped_Server Connections
begin

text \<open>
  All API requests of all connections of the shipped server as one run of the abstract store: the
  order of the run is the order in which the requests are completed, and the response of every
  connection is the reply of its call.
\<close>

section \<open>All requests as calls on the store\<close>

text \<open>
  Clients that use the interface as it is meant: a request of theirs is not for the API or is one of
  its calls.
\<close>

definition tame :: "boost \<Rightarrow> request \<Rightarrow> bool" where
  "tame B req \<longleftrightarrow> \<not> prefix ''/api'' (strip_trailing_slashes (req_target req)) \<or> (\<exists>c. is_call B ''/api'' ''/api'' req c)"

text \<open>The complete requests with a valid credential that the events \<open>es'\<close> after \<open>es\<close> have delivered.\<close>

definition delivered_requests :: "boost \<Rightarrow> credentials \<Rightarrow> event list \<Rightarrow> event list \<Rightarrow> request set" where
  "delivered_requests B creds es es' =
     {req. \<exists>i es1 d. prefix (es1 @ [Read_Done i (Inr d)]) es' \<and> authorised B creds (received_on i (es @ es1) @ d) \<and>
        parser_put B (received_on i (es @ es1) @ d) = Put_done req}"

lemma delivered_requests_mono: "delivered_requests B creds es es' \<subseteq> delivered_requests B creds es (es' @ [e])"
  unfolding delivered_requests_def using prefix_prefix by blast

lemma other_handlers:
  assumes "\<nexists>root pfx. h = RequestHandlerAPI root pfx"
  shows "\<exists>res' w'. handleRequest B h req res w = Inr (res', w') \<and> disk w' = disk w"
proof -
  have "\<exists>res' w'. handleRequest B h req res w = Inr (res', w')" using assms by (cases h) (simp_all add: Let_def case_prod_beta)
  then show ?thesis using handleRequest_effects [of B h req res w] assms by blast
qed

lemma shipped_api_handler:
  assumes "smap_inv hs" and "map_of hs = map_of example_handlers"
    and "getRequestHandler hs t = Some (RequestHandlerAPI root pfx)"
  shows "root = ''./api_storage/'' \<and> pfx = ''/api'' \<and> prefix ''/api'' (strip_trailing_slashes t)"
proof -
  obtain k where "map_of example_handlers k = Some (RequestHandlerAPI root pfx)" "longest_match hs (strip_trailing_slashes t) k"
    using getRequestHandler_iff [OF assms(1)] assms(2,3) by metis
  then show ?thesis by (auto simp: example_handlers_def longest_match_def split: if_splits)
qed

text \<open>A handled request of the API is one call on the store.\<close>

lemma shipped_api_step:
  assumes B: "boost_laws B" and hs: "smap_inv (dispatcher s)" "map_of (dispatcher s) = map_of example_handlers"
    and h: "handled_by B s now d req (RequestHandlerAPI root pfx)" and "tame B req"
    and store: "store_inv ''./api_storage'' r (disk w)" "int (card (dom (store_abs r (disk w)))) < INT_MAX"
  shows "\<exists>res' w' c. handleRequest B (RequestHandlerAPI root pfx) req res w = Inr (res', w') \<and> store_inv ''./api_storage'' r (disk w') \<and>
    is_call B ''/api'' ''/api'' req c \<and> store_call (store_abs r (disk w)) c (res_result res', res_body res') (store_abs r (disk w'))"
proof -
  have h': "root = ''./api_storage/''" "pfx = ''/api''" "prefix ''/api'' (strip_trailing_slashes (req_target req))"
    using shipped_api_handler [OF hs] h by (auto simp: handled_by_def)
  with assms(5) obtain c where c: "is_call B ''/api'' ''/api'' req c" by (auto simp: tame_def)
  note refines = api_client.api_call_refines [OF api_client_CRUDHandler [OF B, of "''./api_storage''" r], where q = "''/api''" and pfx = "''/api''"
      and req = req and c = c and s = "disk w" and res = res]
  have "''/api'' \<in> {''/api'', ''/api'' @ ''/''}" by (rule insertI1)
  from refines [OF store(1) this c store(2)]
  obtain res' fs' where api: "api_handler B (''./api_storage'' @ ''/'') ''/api'' req res (disk w) = Inr (res', fs')"
    and fs': "store_inv ''./api_storage'' r fs'" "store_call (store_abs r (disk w)) c (res_result res', res_body res') (store_abs r fs')"
    by blast
  have "handleRequest B (RequestHandlerAPI root pfx) req res w = Inr (res', w\<lparr>disk := fs'\<rparr>)" using api h'(1,2) by simp
  then show ?thesis using fs' c by (intro exI [of _ res'] exI [of _ "w\<lparr>disk := fs'\<rparr>"]) auto
qed

section \<open>The history of a run\<close>

text \<open>
  The event number \<open>k\<close> of a run completes a request of the API on connection \<open>i\<close>: at that
  moment the session is live, the credential valid, and the dispatcher selects the API handler.
\<close>

definition api_request :: "boost \<Rightarrow> process \<Rightarrow> event list \<Rightarrow> nat \<Rightarrow> nat \<Rightarrow> request \<Rightarrow> bool" where
  "api_request B p es k i req \<longleftrightarrow>
     (\<exists>srv w lg d root pfx. k < length es \<and> event_loop B p (take k es) (Running srv w lg) \<and> es ! k = Read_Done i (Inr d) \<and>
        i < length (started srv) \<and> handled_by B (started srv ! i) (clock w) d req (RequestHandlerAPI root pfx))"

text \<open>
  A history has an entry for every request of the API: the number of its event, its connection, the
  call it makes and the reply. The entries are in the order of the events, no connection has two, and
  the reply is what the connection sends.
\<close>

type_synonym history = "(nat \<times> nat \<times> api_call \<times> status \<times> string) list"

definition api_history :: "boost \<Rightarrow> process \<Rightarrow> event list \<Rightarrow> server \<Rightarrow> history \<Rightarrow> bool" where
  "api_history B p es srv hist \<longleftrightarrow>
     sorted_wrt (<) (map fst hist) \<and> distinct (map (fst \<circ> snd) hist) \<and>
     (\<forall>k i req. api_request B p es k i req \<longrightarrow> (\<exists>c reply. (k, i, c, reply) \<in> set hist)) \<and>
     (\<forall>(k, i, c, reply)\<in>set hist. (\<exists>req. api_request B p es k i req \<and> is_call B ''/api'' ''/api'' req c) \<and>
        quiet srv i \<and> reply = (res_result (response (started srv ! i)), res_body (response (started srv ! i))))"

lemma api_request_snoc:
  assumes "event_loop B p es (Running srv w lg)"
  shows "api_request B p (es @ [e]) k i req \<longleftrightarrow> api_request B p es k i req \<or>
    k = length es \<and> (\<exists>d root pfx. e = Read_Done i (Inr d) \<and> i < length (started srv) \<and>
      handled_by B (started srv ! i) (clock w) d req (RequestHandlerAPI root pfx))"
proof (cases "k < length es")
  case True
  then show ?thesis by (auto simp: api_request_def nth_append)
next
  case False
  then show ?thesis
    using assms event_loop_deterministic [OF assms] by (fastforce simp: api_request_def nth_append less_Suc_eq)
qed

lemma api_request_less: "api_request B p es k i req \<Longrightarrow> k < length es"
  by (auto simp: api_request_def)

text \<open>An event that completes no request of the API leaves the history as it is.\<close>

lemma api_history_same:
  assumes "event_loop B p es (Running srv w lg)" and "run_one B e (Running srv w lg) = Some (Running srv' w' lg')"
    and "\<nexists>i d req root pfx. e = Read_Done i (Inr d) \<and> i < length (started srv) \<and>
      handled_by B (started srv ! i) (clock w) d req (RequestHandlerAPI root pfx)"
    and "api_history B p es srv hist"
  shows "api_history B p (es @ [e]) srv' hist"
proof -
  have "api_request B p (es @ [e]) k i req \<longleftrightarrow> api_request B p es k i req" for k i req
    using api_request_snoc [OF assms(1), of e k i req] assms(3) by blast
  then show ?thesis
    using assms(4) quiet_event [OF assms(2)] unfolding api_history_def by (fastforce simp del: run_one.simps)
qed

lemma api_history_call:
  assumes "event_loop B p es (Running srv w lg)" and "run_one B (Read_Done i (Inr d)) (Running srv w lg) = Some (Running srv' w' lg')"
    and "waits_for srv i Async_Read" and "handled_by B (started srv ! i) (clock w) d req (RequestHandlerAPI root pfx)"
    and "is_call B ''/api'' ''/api'' req c" and "quiet srv' i" and "response (started srv' ! i) = r"
    and "api_history B p es srv hist"
  shows "api_history B p (es @ [Read_Done i (Inr d)]) srv' (hist @ [(length es, i, c, res_result r, res_body r)])"
proof -
  have i: "i < length (started srv)" "\<not> quiet srv i" using assms(3) by (auto simp: waits_for_def quiet_def)
  have req: "api_request B p (es @ [Read_Done i (Inr d)]) k j req' \<longleftrightarrow> api_request B p es k j req' \<or> k = length es \<and> j = i \<and> req' = req" for k j req'
    using api_request_snoc [OF assms(1), of "Read_Done i (Inr d)" k j req'] i(1) assms(4) by (auto simp: handled_by_def)
  have old: "k < length es \<and> j \<noteq> i \<and> quiet srv' j \<and> response (started srv' ! j) = response (started srv ! j)"
    if "(k, j, x) \<in> set hist" for k j x
    using assms(8) that api_request_less quiet_event [OF assms(2), of j] i(2) unfolding api_history_def by fastforce
  have "sorted_wrt (<) (map fst hist @ [length es])" "distinct (map (fst \<circ> snd) hist @ [i])"
    using assms(8) old by (fastforce simp: api_history_def sorted_wrt_append)+
  then show ?thesis
    using assms(5-8) old unfolding api_history_def req by fastforce
qed

section \<open>The storage after any events\<close>


lemma api_history_length:
  assumes "api_history B p es srv hist"
  shows "length hist \<le> length es"
proof -
  have "distinct (map fst hist)" "set (map fst hist) \<subseteq> {..<length es}"
    using assms api_request_less by (fastforce simp: api_history_def strict_sorted_iff)+
  then have "length hist \<le> card {..<length es}" by (metis card_mono distinct_card finite_lessThan length_map)
  then show ?thesis by simp
qed

definition storage_ok :: "boost \<Rightarrow> location \<Rightarrow> world \<Rightarrow> process \<Rightarrow> event list \<Rightarrow> process \<Rightarrow> bool" where
  "storage_ok B r w1 p1 es p \<longleftrightarrow>
     (case p of
        Running srv w lg \<Rightarrow> store_inv ''./api_storage'' r (disk w) \<and>
          (\<exists>hist. api_history B p1 es srv hist \<and> store_run (store_abs r (disk w1)) (map (snd \<circ> snd) hist) (store_abs r (disk w)))
      | Exited code lg \<Rightarrow> True
      | Crashed f \<Rightarrow> False)"

lemma storage_ok_same:
  assumes "event_loop B p1 es (Running srv w lg)" and "run_one B e (Running srv w lg) = Some (Running srv' w' lg')"
    and "\<nexists>i d req root pfx. e = Read_Done i (Inr d) \<and> i < length (started srv) \<and>
      handled_by B (started srv ! i) (clock w) d req (RequestHandlerAPI root pfx)"
    and "storage_ok B r w1 p1 es (Running srv w lg)" and "disk w' = disk w"
  shows "storage_ok B r w1 p1 (es @ [e]) (Running srv' w' lg')"
  using assms(4,5) api_history_same [OF assms(1-3)] by (auto simp: storage_ok_def)

lemma storage_ok_call:
  assumes "event_loop B p1 es (Running srv w lg)" and "run_one B (Read_Done i (Inr d)) (Running srv w lg) = Some (Running srv' w' lg')"
    and "waits_for srv i Async_Read" and "handled_by B (started srv ! i) (clock w) d req (RequestHandlerAPI root pfx)"
    and "is_call B ''/api'' ''/api'' req c" and "quiet srv' i" and "response (started srv' ! i) = res'"
    and "storage_ok B r w1 p1 es (Running srv w lg)" and "store_inv ''./api_storage'' r (disk w')"
    and "store_call (store_abs r (disk w)) c (res_result res', res_body res') (store_abs r (disk w'))"
  shows "storage_ok B r w1 p1 (es @ [Read_Done i (Inr d)]) (Running srv' w' lg')"
proof -
  obtain hist where hist: "api_history B p1 es srv hist" "store_run (store_abs r (disk w1)) (map (snd \<circ> snd) hist) (store_abs r (disk w))"
    using assms(8) by (auto simp: storage_ok_def)
  from api_history_call [OF assms(1-7) hist(1)] store_run.call [OF hist(2) assms(10)] assms(9) show ?thesis
    unfolding storage_ok_def by (auto intro!: exI [of _ "hist @ [(length es, i, c, res_result res', res_body res')]"])
qed

lemma storage_ok_room:
  assumes "storage_ok B r w1 p1 es (Running srv w lg)" and "finite (dom (store_abs r (disk w1)))"
    and "int (card (dom (store_abs r (disk w1))) + length es) < INT_MAX"
  shows "store_inv ''./api_storage'' r (disk w) \<and> int (card (dom (store_abs r (disk w)))) < INT_MAX"
proof -
  obtain hist where hist: "api_history B p1 es srv hist" "store_run (store_abs r (disk w1)) (map (snd \<circ> snd) hist) (store_abs r (disk w))"
    using assms(1) by (auto simp: storage_ok_def)
  from store_run_finite [OF hist(2) assms(2)] api_history_length [OF hist(1)] assms(1,3) show ?thesis by (force simp: storage_ok_def)
qed

lemma delivered_by_handled:
  assumes "loop_inv B srv0 (es0 @ es) srv w" and "i < length (started srv)" and "handled_by B (started srv ! i) (clock w) d req h"
    and "prefix (es @ [Read_Done i (Inr d)]) es'"
  shows "req \<in> delivered_requests B (srv_credentials srv0) es0 es'" and "dispatcher (started srv ! i) = srv_dispatcher srv0"
proof -
  have s: "runs_as B srv0 w (started srv ! i)" "buffer (started srv ! i) = received_on i (es0 @ es)"
    using assms(1,2) by (auto simp: loop_inv_def)
  show "dispatcher (started srv ! i) = srv_dispatcher srv0" using runs_as_safe(1) [OF s(1)] by (simp add: session_of_def)
  have "authorised B (srv_credentials srv0) (received_on i (es0 @ es) @ d)" "parser_put B (received_on i (es0 @ es) @ d) = Put_done req"
    using assms(3) s(2) runs_as_credentials [OF s(1)] by (simp_all add: handled_by_def)
  then show "req \<in> delivered_requests B (srv_credentials srv0) es0 es'"
    unfolding delivered_requests_def using assms(4) by blast
qed

lemma storage_ok_api:
  assumes B: "boost_laws B" and hs: "smap_inv (srv_dispatcher srv0)" "map_of (srv_dispatcher srv0) = map_of example_handlers"
    and inv: "loop_inv B srv0 (es0 @ es) srv w" and ok: "storage_ok B r w1 p1 es (Running srv w lg)"
    and run: "event_loop B p1 es (Running srv w lg)"
    and room: "store_inv ''./api_storage'' r (disk w) \<and> int (card (dom (store_abs r (disk w)))) < INT_MAX"
    and tame: "\<forall>req\<in>delivered_requests B (srv_credentials srv0) es0 (es @ [Read_Done i (Inr d)]). tame B req"
    and e: "run_one B (Read_Done i (Inr d)) (Running srv w lg) = Some p'"
    and h: "i < length (started srv)" "handled_by B (started srv ! i) (clock w) d req (RequestHandlerAPI root pfx)"
  shows "storage_ok B r w1 p1 (es @ [Read_Done i (Inr d)]) p'"
proof -
  have i: "waits_for srv i Async_Read" "deliverable (Inr d)" using e by (auto split: if_splits)
  have del: "req \<in> delivered_requests B (srv_credentials srv0) es0 (es @ [Read_Done i (Inr d)])"
      "dispatcher (started srv ! i) = srv_dispatcher srv0"
    using delivered_by_handled [OF inv h] by auto
  have "tame B req" using tame del(1) by blast
  with shipped_api_step [OF B _ _ h(2), of r w "response (started srv ! i)"] hs del(2) room
  obtain res' w' c where step: "handleRequest B (RequestHandlerAPI root pfx) req (response (started srv ! i)) w = Inr (res', w')"
      "store_inv ''./api_storage'' r (disk w')" "is_call B ''/api'' ''/api'' req c"
      "store_call (store_abs r (disk w)) c (res_result res', res_body res') (store_abs r (disk w'))"
    by auto
  have "runs_as B srv0 w (started srv ! i)" using inv h(1) by (simp add: loop_inv_def)
  from run_handled [OF i this h(2) step(1), of lg] obtain srv' lg' where
    run': "run_one B (Read_Done i (Inr d)) (Running srv w lg) = Some (Running srv' w' lg')" "quiet srv' i" "response (started srv' ! i) = res'"
    by blast
  from storage_ok_call [OF run run'(1) i(1) h(2) step(3) run'(2,3) ok step(2,4)] run'(1) e show ?thesis by simp
qed

lemma storage_ok_other:
  assumes no_api: "\<nexists>i d req root pfx. e = Read_Done i (Inr d) \<and> i < length (started srv) \<and>
      handled_by B (started srv ! i) (clock w) d req (RequestHandlerAPI root pfx)"
    and ok: "storage_ok B r w1 p1 es (Running srv w lg)" and run: "event_loop B p1 es (Running srv w lg)"
    and e: "run_one B e (Running srv w lg) = Some p'"
  shows "storage_ok B r w1 p1 (es @ [e]) p'"
proof -
  note same = storage_ok_same [OF run _ no_api ok]
  from e show ?thesis
  proof (cases rule: run_one_cases)
    case (accepted error s ss srv' lg')
    then show ?thesis using same e by simp
  next
    case (session i x c)
    have "disk (env c) = disk w"
    proof (cases "env c = w")
      case False
      then obtain req h res' where h: "handled_by B (started srv ! i) (clock w) (bytes_on i e) req h" "e = Read_Done i (Inr (bytes_on i e))"
          "handleRequest B h req (response (started srv ! i)) w = Inr (res', env c)"
        using session(6) by blast
      then have "\<nexists>root pfx. h = RequestHandlerAPI root pfx" using no_api session(1) by metis
      from other_handlers [OF this, of B req "response (started srv ! i)" w] h(3) show ?thesis by auto
    qed simp
    then show ?thesis using same session(3) e by (simp add: resume_def del: run_one.simps)
  next
    case (fault i req h f)
    then have "\<nexists>root pfx. h = RequestHandlerAPI root pfx" using no_api by metis
    from other_handlers [OF this, of B req "response (started srv ! i)" w] fault(5) show ?thesis by auto
  next
    case (time t)
    then show ?thesis using same e by simp
  qed (simp_all add: storage_ok_def)
qed

lemma storage_ok_event:
  assumes B: "boost_laws B" and hs: "smap_inv (srv_dispatcher srv0)" "map_of (srv_dispatcher srv0) = map_of example_handlers"
    and inv: "loop_inv B srv0 (es0 @ es) srv w" and ok: "storage_ok B r w1 p1 es (Running srv w lg)"
    and run: "event_loop B p1 es (Running srv w lg)"
    and start: "finite (dom (store_abs r (disk w1)))" "int (card (dom (store_abs r (disk w1))) + length es) < INT_MAX"
    and tame: "\<forall>req\<in>delivered_requests B (srv_credentials srv0) es0 (es @ [e]). tame B req"
    and e: "run_one B e (Running srv w lg) = Some p'"
  shows "storage_ok B r w1 p1 (es @ [e]) p'"
  using storage_ok_api [OF B hs inv ok run storage_ok_room [OF ok start]] storage_ok_other [OF _ ok run e] tame e by blast

lemma shipped_storage:
  assumes B: "boost_laws B" and serve: "server_main bind [prog, f] w0 lg = Inr (Serving srv0 lg0)"
    and conf: "ifstream_read (disk w0) f = Some example_config3_text"
    and run: "event_loop B (Running srv0 w0 lg0) es0 (Running srv1 w1 lg1)" "event_loop B (Running srv1 w1 lg1) es p"
    and store: "store_inv ''./api_storage'' r (disk w1)" "int (card (dom (store_abs r (disk w1))) + length es) < INT_MAX"
    and tame: "\<forall>req\<in>delivered_requests B (srv_credentials srv0) es0 es. tame B req"
  shows "storage_ok B r w1 (Running srv1 w1 lg1) es p"
proof -
  have pf: "Parse_file (disk w0) ([prog, f] ! 1) (NginxConfig []) = Inr (True, example_config3)"
    by (simp add: Parse_file_def conf Parse_example_config3)
  have hs: "smap_inv (srv_dispatcher srv0)" "map_of (srv_dispatcher srv0) = map_of example_handlers"
    using serving_details(1,2) [OF serve pf] example_handlers_map by simp_all
  have "wf_fs (disk w1)" using store(1) unfolding store_inv_def by blast
  then have fin: "finite (dom (store_abs r (disk w1)))" by (rule finite_store)
  show ?thesis
    using run(2) store(2) tame
  proof induction
    case loop_starts
    have "api_history B (Running srv1 w1 lg1) [] srv1 []" by (simp add: api_history_def api_request_def)
    then show ?case using store(1) by (auto simp: storage_ok_def intro!: exI [of _ "[]"] store_run.idle)
  next
    case (loop_event es p e p')
    have tame: "\<forall>req\<in>delivered_requests B (srv_credentials srv0) es0 es. tame B req"
      using loop_event.prems(2) delivered_requests_mono [of B "srv_credentials srv0" es0 es e] by blast
    have room: "int (card (dom (store_abs r (disk w1))) + length es) < INT_MAX" using loop_event.prems(1) by simp
    obtain srv w lg2 where p: "p = Running srv w lg2" using loop_event.hyps(2) by (cases p) auto
    have "loop_inv B srv0 (es0 @ es) srv w"
      using serving_loop_ok [OF serve event_loop_append [OF run(1) loop_event.hyps(1)]] by (simp add: p loop_ok_def)
    from storage_ok_event [OF B hs this _ _ fin room loop_event.prems(2)]
    show ?case using loop_event.IH [OF room tame] loop_event.hyps by (simp add: p)
  qed
qed

text \<open>The request of an entry of the history is one that the events have delivered.\<close>

lemma api_request_delivered:
  assumes "server_main bind argv w0 lg = Inr (Serving srv0 lg0)" and "event_loop B (Running srv0 w0 lg0) es0 p1"
    and "api_request B p1 es k i req"
  shows "req \<in> delivered_requests B (srv_credentials srv0) es0 es"
proof -
  obtain srv w lg1 d h where k: "k < length es" "event_loop B p1 (take k es) (Running srv w lg1)" "es ! k = Read_Done i (Inr d)"
      "i < length (started srv)" "handled_by B (started srv ! i) (clock w) d req h"
    using assms(3) by (auto simp: api_request_def)
  have "loop_inv B srv0 (es0 @ take k es) srv w"
    using serving_loop_ok [OF assms(1) event_loop_append [OF assms(2) k(2)]] by (simp add: loop_ok_def)
  moreover have "prefix (take k es @ [Read_Done i (Inr d)]) es"
    using k(1,3) by (metis take_Suc_conv_app_nth take_is_prefix)
  ultimately show ?thesis using delivered_by_handled(1) k(4,5) by blast
qed

text \<open>What the events have done to the storage, as a run of the store.\<close>

lemma shipped_storage_refinement:
  assumes "boost_laws B" and serve: "server_main bind [prog, f] w0 lg = Inr (Serving srv0 lg0)"
    and "ifstream_read (disk w0) f = Some example_config3_text"
    and run: "event_loop B (Running srv0 w0 lg0) es0 (Running srv1 w1 lg1)" and "event_loop B (Running srv1 w1 lg1) es (Running srv w lg2)"
    and "store_inv ''./api_storage'' r (disk w1)" and "int (card (dom (store_abs r (disk w1))) + length es) < INT_MAX"
    and "\<forall>req\<in>delivered_requests B (srv_credentials srv0) es0 es. tame B req"
  shows "store_inv ''./api_storage'' r (disk w) \<and> (\<exists>cs. store_run (store_abs r (disk w1)) cs (store_abs r (disk w)) \<and>
    (\<forall>(c, reply)\<in>set cs. \<exists>req\<in>delivered_requests B (srv_credentials srv0) es0 es. is_call B ''/api'' ''/api'' req c))"
proof -
  obtain hist where inv: "store_inv ''./api_storage'' r (disk w)" and hist: "api_history B (Running srv1 w1 lg1) es srv hist"
      "store_run (store_abs r (disk w1)) (map (snd \<circ> snd) hist) (store_abs r (disk w))"
    using shipped_storage [OF assms] by (auto simp: storage_ok_def)
  have "\<exists>req\<in>delivered_requests B (srv_credentials srv0) es0 es. is_call B ''/api'' ''/api'' req c" if "(k, i, c, reply) \<in> set hist" for k i c reply
    using hist(1) that api_request_delivered [OF serve run] unfolding api_history_def by fastforce
  with inv hist(2) show ?thesis by (intro conjI exI [of _ "map (snd \<circ> snd) hist"]) auto
qed

end
