(* ===== verification/Event_Loop_Log.thy ===== *)
theory Event_Loop_Log
  imports Event_Loop_Safety
begin

text \<open>
  The one logger that all parts of the process share, over the whole life of the process: records are
  only added, each goes to one file and one console sink, and none is fatal.
\<close>

section \<open>Severities\<close>

text \<open>The severities of Boost.Log in their order.\<close>

instantiation severity_level :: linorder
begin

fun severity_rank :: "severity_level \<Rightarrow> nat" where
  "severity_rank sev_trace = 0"
| "severity_rank sev_debug = 1"
| "severity_rank sev_info = 2"
| "severity_rank sev_warning = 3"
| "severity_rank sev_error = 4"
| "severity_rank sev_fatal = 5"

definition less_eq_severity_level :: "severity_level \<Rightarrow> severity_level \<Rightarrow> bool" where
  "less_eq_severity_level a b \<longleftrightarrow> severity_rank a \<le> severity_rank b"

definition less_severity_level :: "severity_level \<Rightarrow> severity_level \<Rightarrow> bool" where
  "less_severity_level a b \<longleftrightarrow> severity_rank a < severity_rank b"

instance
proof
  fix a b :: severity_level
  show "a = b" if "a \<le> b" "b \<le> a"
    using that by (cases a; cases b) (simp_all add: less_eq_severity_level_def)
qed (auto simp: less_eq_severity_level_def less_severity_level_def)

end

section \<open>Growth of the log\<close>

definition log_grows :: "logger_ptr \<Rightarrow> logger_ptr \<Rightarrow> bool" where
  "log_grows p q \<longleftrightarrow> (\<exists>new. log_of q = log_of p @ new \<and> (\<forall>(sev, msg)\<in>set new. sev \<le> sev_error)) \<and>
     (logger_inv p \<longrightarrow> logger_inv q) \<and> (p \<noteq> None \<longrightarrow> q \<noteq> None)"

named_theorems growing \<open>operations that add to the log\<close>

lemma log_grows_refl [simp, growing]: "log_grows p p"
  by (simp add: log_grows_def)

lemma log_grows_trans: "log_grows p q \<Longrightarrow> log_grows q r \<Longrightarrow> log_grows p r"
  unfolding log_grows_def by fastforce

lemma log_grows_getLogger [growing]: "log_grows p q \<Longrightarrow> log_grows p (getLogger q)"
  by (auto simp: log_grows_def)

lemma log_grows_sev:
  assumes "log_grows p q" and "sev \<le> sev_error"
  shows "log_grows p (log_sev sev msg q)"
proof (cases q)
  case None
  then show ?thesis using assms by (simp add: log_sev_def)
next
  case (Some L)
  then show ?thesis using assms log_of_log_sev [of q sev msg] by (fastforce simp: log_grows_def)
qed

lemma log_grows_ops [growing]:
  assumes "log_grows p q"
  shows "log_grows p (logServerInitialization q)" "log_grows p (logTraceFile m q)" "log_grows p (logErrorFile m q)"
    "log_grows p (logDebugFile m q)" "log_grows p (logResponse m q)" "log_grows p (logSig q)" "log_grows p (logTraceHTTPrequest req q)"
  using assms unfolding log_ops by (auto intro!: log_grows_sev simp: less_eq_severity_level_def)

section \<open>The methods of a session\<close>

lemma method_logs:
  "log (handle_read c) = logDebugFile ''Waiting for data from client'' (getLogger (log c))"
  "log (handle_write c) = logDebugFile ''Writing response to client'' (getLogger (log c))"
  by (simp_all add: handle_read_def handle_write_def Let_def)

lemma is_session_expired_grows [growing]: "log_grows p (log c) \<Longrightarrow> log_grows p (log (snd (is_session_expired c)))"
  by (auto simp: is_session_expired_def Let_def method_logs intro!: growing)

lemma authenticate_log [simp]: "log (snd (authenticate hdr c)) = log c"
  by (simp add: authenticate_eq)

lemma send_unauthorized_grows [growing]: "log_grows p (log c) \<Longrightarrow> log_grows p (log (send_unauthorized_response B c))"
  by (simp add: send_unauthorized_response_def Let_def method_logs growing)

lemma dispatch_request_grows:
  assumes "dispatch_request B req c = Inr (ret, c')" and "log_grows p (log c)"
  shows "log_grows p (log c')"
  using assms by (auto simp: dispatch_request_def Let_def bind_res_eq_Inr_iff method_logs intro!: growing split: option.splits)

lemma process_request_grows:
  assumes "process_request B req c = Inr (ret, c')" and "log_grows p (log c)"
  shows "log_grows p (log c')"
proof -
  have dispatch: "log_grows p (log c')"
    if "dispatch_request B req (snd (authenticate hdr (snd (is_session_expired c1)))) = Inr (ret, c')" "log_grows p (log c1)" for hdr c1
    by (rule dispatch_request_grows [OF that(1)]) (simp add: that(2) growing)
  show ?thesis
    using assms unfolding process_request_def Let_def case_prod_beta
    by (cases "fields_find B field_authorization (req_fields req)")
       (auto simp del: is_session_expired_simps intro!: growing elim!: dispatch split: if_splits)
qed

lemma read_callback_grows:
  assumes "handle_read_callback B completion c = Inr (ret, c')" and "log_grows p (log c)"
  shows "log_grows p (log c')"
proof (cases completion)
  case (Inl msg)
  then show ?thesis using assms by (auto simp: handle_read_callback_def Let_def intro!: growing)
next
  case (Inr d)
  let ?c1 = "(log_with getLogger c)\<lparr>ses := (ses c)\<lparr>buffer := buffer (ses c) @ d\<rparr>\<rparr>"
  have "log_grows p (log ?c1)" using assms(2) by (simp add: growing)
  then show ?thesis
    using assms(1) Inr process_request_grows [of B _ ?c1 ret c' p]
    by (cases "parser_put B (buffer (ses c) @ d)") (auto simp: handle_read_callback_def Let_def method_logs intro!: growing)
qed

lemma write_callback_grows: "handle_write_callback error c = (code, c') \<Longrightarrow> log_grows p (log c) \<Longrightarrow> log_grows p (log c')"
  by (auto simp: handle_write_callback_def Let_def intro!: growing split: option.splits)

lemma handle_accept_grows: "handle_accept w s error srv lg = (srv', lg') \<Longrightarrow> log_grows p lg \<Longrightarrow> log_grows p lg'"
  by (auto simp: handle_accept_def start_accept_def start_session_def session_start_def new_session_def Let_def method_logs
      intro!: growing split: if_splits)

section \<open>The start of the program\<close>

lemma location_loop_grows: "location_loop sts n hs lg = Inr (n', hs', lg') \<Longrightarrow> log_grows p lg \<Longrightarrow> log_grows p lg'"
  by (induction sts n hs lg rule: location_loop.induct)
     (auto simp: bind_res_eq_Inr_iff growing split: if_splits option.splits)

lemma server_loop_grows: "server_loop sts n hs lg = Inr (n', hs', lg') \<Longrightarrow> log_grows p lg \<Longrightarrow> log_grows p lg'"
  by (induction sts n hs lg rule: server_loop.induct) (auto intro: location_loop_grows split: if_splits option.splits)

lemma new_server_grows:
  assumes "new_server bind port config creds at w lg = Inr (Constructed srv lg')" and "log_grows p lg"
  shows "log_grows p lg'"
proof -
  obtain n hs lg1 where loop: "server_loop (statements config) 0 [] (getLogger lg) = Inr (n, hs, lg1)" "lg' = getLogger (getLogger lg1)"
    using assms(1)
    by (auto simp: new_server_def RequestHandlerDispatcher_def initRequestHandlers_def start_accept_def new_session_def Let_def
        bind_res_eq_Inr_iff split: option.splits)
  show ?thesis unfolding loop(2) by (intro growing server_loop_grows [OF loop(1)] assms(2))
qed

lemma server_main_grows:
  assumes "server_main bind argv w lg = Inr (Serving srv lg')"
  shows "log_grows (getLogger lg) lg'"
proof -
  have serve: "log_grows p lg'" if "main_serve bind port at config w lg1 = Inr (Serving srv lg')" "log_grows p lg1" for port at config p lg1
  proof -
    note main = that
    obtain creds con where con: "new_server bind (word_of_int port) config creds at w lg1 = Inr con"
        "(case con of
           Throws msg \<Rightarrow> Inr (Exit 0 (logErrorFile (''Exception: '' @ msg) lg1))
         | Constructed srv lg \<Rightarrow>
             (let lg = logServerInitialization lg;
                  lg = logTraceFile (''Starting server on port '' @ int_to_string port) lg;
                  lg = logTraceFile (''Authorization timeout: '' @ int_to_string (sint at) @ '' seconds'') lg
              in Inr (Serving srv lg))) = (Inr (Serving srv lg') :: outcome res)"
      using main(1) unfolding main_serve_def bind_res_eq_Inr_iff by blast
    then show ?thesis using new_server_grows [of bind "word_of_int port" config creds at w lg1 _ _ p] main(2)
      by (cases con) (auto simp: Let_def intro!: growing)
  qed
  show ?thesis
    using assms
    by (auto simp: server_main_def main_port_def main_auth_time_def Let_def bind_res_eq_Inr_iff intro!: growing elim!: serve
        split: if_splits)
qed

section \<open>The event loop\<close>

lemma run_one_grows:
  assumes "run_one B e (Running srv w lg) = Some p'"
  shows "case p' of Running srv' w' lg' \<Rightarrow> log_grows lg lg'
    | Exited code lg' \<Rightarrow> log_grows lg lg' \<and> (code = 1 \<longrightarrow> lg' = logSig (getLogger lg))
    | Crashed f \<Rightarrow> True"
  using assms
proof (cases rule: run_one_event)
  case (accepted error s ss srv' lg')
  then show ?thesis using handle_accept_grows [OF accepted(3)] by (simp add: growing)
next
  case (read i completion ret c)
  then show ?thesis using read_callback_grows [OF read(4), of lg] by (simp add: resume_def growing)
next
  case (written i error code c)
  then show ?thesis using write_callback_grows [OF written(3), of lg] by (simp add: resume_def growing)
qed (simp_all add: growing)

definition process_log :: "process \<Rightarrow> logger_ptr" where
  "process_log p = (case p of Running srv w lg \<Rightarrow> lg | Exited code lg \<Rightarrow> lg | Crashed f \<Rightarrow> None)"

lemma event_loop_grows:
  assumes "event_loop B (Running srv0 w0 lg0) es p"
  shows "case p of Running srv w lg \<Rightarrow> log_grows lg0 lg
    | Exited code lg \<Rightarrow> log_grows lg0 lg \<and> (code = 1 \<longrightarrow> (\<exists>lg1. lg = logSig (getLogger lg1)))
    | Crashed f \<Rightarrow> True"
  using assms
proof induction
  case (loop_event es p e p')
  obtain srv w lg where p: "p = Running srv w lg" using loop_event.hyps(2) by (cases p) auto
  from run_one_grows [OF loop_event.hyps(2) [unfolded p]] show ?case
    using loop_event.IH log_grows_trans by (cases p') (auto simp: p)
qed simp

text \<open>
  C31. The process keeps one log. From the start of \<^verbatim>\<open>main\<close> on, whatever events happen, the log
  goes to exactly one file sink and one console sink, records are only added to it, no record is fatal,
  and when the process is interrupted its last record says so.
\<close>

theorem log_is_append_only:
  assumes "server_main bind argv w0 None = Inr (Serving srv0 lg0)" and "event_loop B (Running srv0 w0 lg0) es p"
    and "p = Running srv w lg \<or> p = Exited code lg"
  shows "\<exists>L new. lg = Some L \<and> file_sinks L = 1 \<and> console_sinks L = 1 \<and> records L = log_of lg0 @ new \<and>
    (\<forall>(sev, msg)\<in>set (records L). sev \<le> sev_error) \<and>
    (p = Exited code lg \<longrightarrow> last (records L) = (sev_warning, ''Shutting down the server...''))"
proof -
  have start: "log_grows (getLogger None) lg0" by (rule server_main_grows [OF assms(1)])
  have run: "log_grows lg0 lg" "p = Exited code lg \<Longrightarrow> \<exists>lg1. lg = logSig (getLogger lg1)"
    using event_loop_grows [OF assms(2)] serving_loop_ok [OF assms(1,2)] assms(3) by (auto simp: loop_ok_def)
  have all: "log_grows (getLogger None) lg" by (rule log_grows_trans [OF start run(1)])
  then obtain L where L: "lg = Some L" by (auto simp: log_grows_def)
  have "logger_inv (getLogger None)" "log_of (getLogger None) = []" by (simp_all add: logger_inv_def log_of_def getLogger_def new_Logger_def Logger_init_def)
  with all have "file_sinks L = 1" "console_sinks L = 1" "\<forall>(sev, msg)\<in>set (records L). sev \<le> sev_error"
    by (auto simp: log_grows_def L logger_inv_def log_of_def)
  moreover obtain new where "records L = log_of lg0 @ new" using run(1) by (auto simp: log_grows_def L log_of_def)
  moreover have "last (records L) = (sev_warning, ''Shutting down the server...'')" if sig: "p = Exited code lg"
  proof -
    obtain lg1 where "lg = logSig (getLogger lg1)" using run(2) [OF sig] by blast
    then have "log_of lg = log_of (getLogger lg1) @ [(sev_warning, ''Shutting down the server...'')]" by (simp add: logSig_def log_of_log_sev)
    then show ?thesis by (simp add: L log_of_def)
  qed
  ultimately show ?thesis using L by blast
qed

theorem log_is_append_only_witness:
  "\<exists>srv0 lg0 lg L new. server_main (\<lambda>_. None) [''server'', ''c''] deployed_world None = Inr (Serving srv0 lg0) \<and>
     event_loop (ref_boost (\<lambda>_. Put_more)) (Running srv0 deployed_world lg0) [Interrupt] (Exited 1 lg) \<and>
     lg = Some L \<and> file_sinks L = 1 \<and> records L = log_of lg0 @ new \<and> last (records L) = (sev_warning, ''Shutting down the server...'')"
proof -
  obtain srv0 lg0 where s: "server_main (\<lambda>_. None) [''server'', ''c''] deployed_world None = Inr (Serving srv0 lg0)"
    using deployed_serves by blast
  let ?lg = "logSig (getLogger lg0)"
  have "run_one (ref_boost (\<lambda>_. Put_more)) Interrupt (Running srv0 deployed_world lg0) = Some (Exited 1 ?lg)" by (simp add: signalHandler_def)
  from loop_event [OF loop_starts this]
  have r: "event_loop (ref_boost (\<lambda>_. Put_more)) (Running srv0 deployed_world lg0) [Interrupt] (Exited 1 ?lg)" by simp
  from log_is_append_only [OF s r, of srv0 deployed_world ?lg 1] obtain L new where
    "?lg = Some L" "file_sinks L = 1" "records L = log_of lg0 @ new" "last (records L) = (sev_warning, ''Shutting down the server...'')" by auto
  with s r show ?thesis by blast
qed

end
