(* ===== verification/API_Faults.thy ===== *)
theory API_Faults
  imports Event_Loop_Safety
begin

text \<open>
  When a request ends the process. The API handler is \<^verbatim>\<open>noexcept\<close> and the only handler
  that can fault; here are the exact conditions on the request and the disk, for any target, and what
  they mean for the event loop.
\<close>

section \<open>Paths of any entity\<close>

lemma parent_path_of_item: "parent_path (getPath base e i) = (let q = strip_slashes (base @ e) in if q = [] then ''/'' else q)"
  using find_last_of_append_notin [OF slash_notin_int_to_string [of i], of "base @ e"]
  by (simp add: parent_path_def getPath_def)

lemma path_start_item: "path_start fs (getPath base e i) = path_start fs ((base @ e) @ ''/'')"
  using path_start_append [of fs "base @ e" "int_to_string i"] by (simp add: getPath_def)

lemma resolve_item:
  "resolve fs (getPath base e i) =
     (case walk fs (path_start fs ((base @ e) @ ''/'')) (split_path (base @ e)) of
        None \<Rightarrow> None
      | Some d \<Rightarrow> if nodes fs d = Some Dir then Some (d @ [int_to_string i]) else None)"
proof -
  have "getPath base e i \<noteq> []" by (simp add: getPath_def)
  moreover have "split_path (getPath base e i) = split_path (base @ e) @ [int_to_string i]"
    using split_path_append_slash [of "base @ e" "int_to_string i"] split_path_name [OF slash_notin_int_to_string [of i]] by (simp add: getPath_def)
  ultimately show ?thesis
    unfolding resolve_def path_start_item by (simp add: walk_append walk_plain del: walk.simps(2) split: option.split)
qed

text \<open>Only finitely many ids of an entity are taken.\<close>

lemma free_id:
  assumes "wf_fs fs" and "int (card (dom (nodes fs))) < INT_MAX"
  shows "\<exists>i. 1 \<le> i \<and> i \<le> INT_MAX \<and> stat fs (getPath base e i) = None"
proof (rule ccontr)
  assume "\<nexists>i. 1 \<le> i \<and> i \<le> INT_MAX \<and> stat fs (getPath base e i) = None"
  then have all: "stat fs (getPath base e i) \<noteq> None" if "i \<in> {1..INT_MAX}" for i using that by auto
  have "stat fs (getPath base e 1) \<noteq> None" using all [of 1] by (simp add: INT_MAX_def)
  then obtain d where "resolve fs (getPath base e i) = Some (d @ [int_to_string i])" for i
    by (auto simp: stat_def resolve_item split: option.splits if_splits)
  with all have "(\<lambda>i. d @ [int_to_string i]) ` {1..INT_MAX} \<subseteq> dom (nodes fs)" by (auto simp: stat_def)
  moreover have "finite (dom (nodes fs))" using assms(1) unfolding wf_fs_def by blast
  ultimately have "card ((\<lambda>i. d @ [int_to_string i]) ` {1..INT_MAX}) \<le> card (dom (nodes fs))" by (rule card_mono [rotated])
  moreover have "card ((\<lambda>i. d @ [int_to_string i]) ` {1..INT_MAX}) = nat INT_MAX" by (subst card_image) (auto simp: inj_on_def)
  ultimately show False using assms(2) by simp
qed

section \<open>Loops over ids\<close>

lemma getNextId_returns:
  assumes "i \<le> j" and "j \<le> INT_MAX" and "\<not> bfs_exists B fs (getPath base e j)"
  shows "\<exists>k. getNextId_loop B base fs e i = Inr k"
  using assms
proof (induction "nat (j - i)" arbitrary: i)
  case 0
  then show ?case by (subst getNextId_loop.simps) simp
next
  case (Suc m)
  then have "i < j" by simp
  moreover have "\<exists>k. getNextId_loop B base fs e (i + 1) = Inr k" using Suc by simp
  ultimately show ?case using Suc.prems(2) by (subst getNextId_loop.simps) auto
qed

lemma list_loop_returns:
  assumes "i \<le> j" and "j \<le> INT_MAX" and "\<not> crud_exists C s e j"
  shows "\<exists>txt. list_loop C s e i acc = Inr txt"
  using assms
proof (induction "nat (j - i)" arbitrary: i acc)
  case 0
  then show ?case by (subst list_loop.simps) simp
next
  case (Suc m)
  then have "i < j" by simp
  moreover have "\<exists>txt. list_loop C s e (i + 1) acc' = Inr txt" for acc' using Suc by simp
  ultimately show ?case using Suc.prems(2) by (subst list_loop.simps) (auto simp: Let_def)
qed

section \<open>Writing over an item, removing it\<close>

lemma split_path_strip: "\<exists>n. split_path s = split_path (strip_slashes s) @ replicate n []"
proof (induction s rule: strip_slashes.induct)
  case (1 s)
  show ?case
  proof (cases "s \<noteq> [] \<and> last s = CHR ''/''")
    case True
    then have s: "s = butlast s @ ''/''" using append_butlast_last_id by metis
    obtain n where "split_path (butlast s) = split_path (strip_slashes (butlast s)) @ replicate n []" using 1 True by blast
    moreover have "split_path s = split_path (butlast s) @ [[]]" using split_path_append_slash [of "butlast s" "[]"] s by simp
    moreover have "strip_slashes s = strip_slashes (butlast s)" using True by (subst strip_slashes.simps) simp
    ultimately show ?thesis by (intro exI [of _ "Suc n"]) (simp add: replicate_append_same)
  next
    case False
    then show ?thesis by (intro exI [of _ 0]) (subst strip_slashes.simps, auto)
  qed
qed

lemma walk_replicate_empty: "walk fs d (replicate n []) = Some d' \<Longrightarrow> d' = d"
  by (induction n) (auto split: if_splits)

lemma strip_slashes_prefix: "prefix (strip_slashes s) s"
proof (induction s rule: strip_slashes.induct)
  case (1 s)
  show ?case
  proof (cases "s \<noteq> [] \<and> last s = CHR ''/''")
    case True
    then have "prefix (strip_slashes (butlast s)) s" using 1 prefixeq_butlast prefix_order.trans by blast
    then show ?thesis using True by (subst strip_slashes.simps) simp
  next
    case False
    then show ?thesis by (subst strip_slashes.simps) auto
  qed
qed

text \<open>When an item exists, the directories above it do, and writing it again does not fault.\<close>

lemma create_directories_above:
  assumes "wf_fs fs" and "stat fs (getPath base e i) \<noteq> None"
  shows "create_directories fs (parent_path (getPath base e i)) = Inr fs"
proof -
  let ?a = "base @ e" and ?q = "strip_slashes (base @ e)"
  obtain d where d: "walk fs (path_start fs (?a @ ''/'')) (split_path ?a) = Some d" "nodes fs d = Some Dir"
    using assms(2) by (auto simp: stat_def resolve_item split: option.splits if_splits)
  show ?thesis
  proof (cases "?q = []")
    case True
    then have "parent_path (getPath base e i) = ''/''" by (simp add: parent_path_of_item)
    then show ?thesis by (simp add: create_directories_def)
  next
    case False
    have p: "parent_path (getPath base e i) = ?q" using False by (simp add: parent_path_of_item Let_def)
    obtain rest where rest: "?a = ?q @ rest" using strip_slashes_prefix [of ?a] by (auto simp: prefix_def)
    have start: "path_start fs (?a @ ''/'') = path_start fs ?q"
      using False by (subst rest) (auto simp: path_start_def split: list.split)
    obtain n where n: "split_path ?a = split_path ?q @ replicate n []" using split_path_strip by blast
    with d(1) obtain d' where "walk fs (path_start fs ?q) (split_path ?q) = Some d'" "walk fs d' (replicate n []) = Some d"
      unfolding start by (auto simp: walk_append split: option.splits)
    then have "walk fs (path_start fs ?q) (split_path ?q) = Some d" using walk_replicate_empty by metis
    from make_directories_existing [OF this d(2) assms(1), of "[]"] show ?thesis
      using False by (simp add: create_directories_def p)
  qed
qed

definition nonempty_directory :: "file_system \<Rightarrow> string \<Rightarrow> bool" where
  "nonempty_directory fs p \<longleftrightarrow> (\<exists>k n. resolve fs p = Some k \<and> nodes fs k = Some Dir \<and> nodes fs (k @ [n]) \<noteq> None)"

lemma remove_faults_iff:
  assumes B: "boost_laws B"
  shows "(\<exists>f. bfs_remove B fs p = Inl f) \<longleftrightarrow> nonempty_directory fs p"
proof (cases "stat fs p")
  case None
  then show ?thesis using boost_laws.remove_missing [OF B None] by (auto simp: nonempty_directory_def stat_def)
next
  case (Some x)
  then obtain k where k: "resolve fs p = Some k" "nodes fs k = Some x" by (auto simp: stat_def split: option.splits)
  show ?thesis
  proof (cases x)
    case (File rd wr data)
    then show ?thesis using boost_laws.remove_file [OF B k(1)] k by (simp add: nonempty_directory_def)
  next
    case Dir
    then show ?thesis
      using boost_laws.remove_empty_directory [OF B k(1)] boost_laws.remove_directory [OF B k(1)] k
      by (cases "\<forall>n. nodes fs (k @ [n]) = None") (auto simp: nonempty_directory_def)
  qed
qed

section \<open>The requests that fault\<close>

text \<open>
  A POST whose collection cannot be created, because something on its path is a file, and a DELETE whose
  path is a directory with entries.
\<close>

definition fatal_request :: "boost \<Rightarrow> string \<Rightarrow> string \<Rightarrow> request \<Rightarrow> file_system \<Rightarrow> bool" where
  "fatal_request B root pfx req fs \<longleftrightarrow>
     req_method req = verb_post \<and> (\<exists>f. create_directories fs (parent_path (getPath root (after_last_slash (req_target req)) 1)) = Inl f) \<or>
     req_method req = verb_delete \<and>
       (\<exists>u i. removePrefix pfx (req_target req) = Some u \<and> lexical_cast_int B (after_last_slash u) = Some i \<and>
          nonempty_directory fs (getPath root (before_last_slash u) i))"

lemma create_faults_iff:
  assumes "boost_laws B" and "wf_fs fs" and "int (card (dom (nodes fs))) < INT_MAX"
  shows "(\<exists>f. CRUDHandler_create B root fs e d = Inl f) \<longleftrightarrow> (\<exists>f. create_directories fs (parent_path (getPath root e 1)) = Inl f)"
proof -
  obtain j where "1 \<le> j" "j \<le> INT_MAX" "\<not> bfs_exists B fs (getPath root e j)"
    using free_id [OF assms(2,3)] boost_laws.exists_stat [OF assms(1)] by metis
  then obtain k where k: "getNextId B root fs e = Inr k" using getNextId_returns unfolding getNextId_def by blast
  have "parent_path (getPath root e k) = parent_path (getPath root e 1)" by (simp add: parent_path_of_item)
  then show ?thesis
    by (cases "create_directories fs (parent_path (getPath root e 1))") (simp_all add: CRUDHandler_create_def FileStorage_write_def k)
qed

lemma update_never_faults:
  assumes "boost_laws B" and "wf_fs fs"
  shows "CRUDHandler_update B root fs e i d \<noteq> Inl f"
proof (cases "stat fs (getPath root e i) = None")
  case True
  then show ?thesis
    by (simp add: CRUDHandler_update_def CRUDHandler_exists_def boost_laws.exists_stat [OF assms(1)])
next
  case False
  then show ?thesis
    using create_directories_above [OF assms(2) False]
    by (simp add: CRUDHandler_update_def CRUDHandler_exists_def boost_laws.exists_stat [OF assms(1)] FileStorage_write_def)
qed

lemma delete_faults_iff:
  assumes "boost_laws B"
  shows "(\<exists>f. CRUDHandler_delete B root fs e i = Inl f) \<longleftrightarrow> nonempty_directory fs (getPath root e i)"
proof (cases "stat fs (getPath root e i) = None")
  case True
  then have "\<not> nonempty_directory fs (getPath root e i)" by (auto simp: nonempty_directory_def stat_def)
  with True show ?thesis by (simp add: CRUDHandler_delete_def CRUDHandler_exists_def boost_laws.exists_stat [OF assms])
next
  case False
  then show ?thesis
    using remove_faults_iff [OF assms, of fs "getPath root e i"]
    by (auto simp: CRUDHandler_delete_def CRUDHandler_exists_def boost_laws.exists_stat [OF assms] FileStorage_remove_def bind_res_eq_Inl_iff)
qed

lemma api_handler_faults_iff:
  assumes B: "boost_laws B" and "wf_fs fs" and "int (card (dom (nodes fs))) < INT_MAX"
  shows "(\<exists>f. api_handler B root pfx req res fs = Inl f) \<longleftrightarrow> fatal_request B root pfx req fs"
proof (cases "req_method req")
  case verb_post
  then show ?thesis
    using create_faults_iff [OF assms, of root]
    by (auto simp: fatal_request_def api_defs CRUDHandler_def Let_def bind_res_eq_Inl_iff)
next
  case verb_get
  have "list_loop (CRUDHandler B root) fs u 1 ''['' \<noteq> Inl f" for u f
  proof -
    obtain j where "1 \<le> j" "j \<le> INT_MAX" "\<not> crud_exists (CRUDHandler B root) fs u j"
      using free_id [OF assms(2,3), of root u] by (auto simp: CRUDHandler_def CRUDHandler_exists_def boost_laws.exists_stat [OF B])
    from list_loop_returns [OF this, of "''[''"] show ?thesis by auto
  qed
  with verb_get show ?thesis
    by (simp add: fatal_request_def api_defs Let_def bind_res_eq_Inl_iff split: option.split)
next
  case verb_put
  then show ?thesis
    using update_never_faults [OF B assms(2), of root]
    by (simp add: fatal_request_def api_defs CRUDHandler_def Let_def bind_res_eq_Inl_iff split: option.split)
next
  case verb_delete
  then show ?thesis
    using delete_faults_iff [OF B, of root fs]
    by (auto simp: fatal_request_def api_defs CRUDHandler_def Let_def bind_res_eq_Inl_iff split: option.split)
next
  case verb_other
  then show ?thesis by (simp add: fatal_request_def api_defs)
qed

section \<open>The end of the process\<close>

lemma handler_faults_iff:
  assumes "boost_laws B" and "wf_fs (disk w)" and "int (card (dom (nodes (disk w)))) < INT_MAX"
  shows "(\<exists>f. handleRequest B h req res w = Inl f) \<longleftrightarrow>
    (\<exists>root pfx. h = RequestHandlerAPI root pfx \<and> fatal_request B root pfx req (disk w))"
proof (cases "\<exists>root pfx. h = RequestHandlerAPI root pfx")
  case True
  then obtain root pfx where "h = RequestHandlerAPI root pfx" by blast
  then show ?thesis using api_handler_faults_iff [OF assms, of root pfx req res] by (auto simp: bind_res_eq_Inl_iff)
next
  case False
  then show ?thesis by (cases h) (simp_all add: Let_def case_prod_beta)
qed

lemma read_callback_handler_fault:
  assumes "handled_by B (ses c) (clock (env c)) d req h" and "handleRequest B h req (response (ses c)) (env c) = Inl f"
  shows "handle_read_callback B (Inr d) c = Inl f"
  using authorised_request_cases [of B c d] assms by (auto simp: handled_by_def)


text \<open>
  A collection whose name is a number: its first item makes it a directory with an entry, and a DELETE
  of \<^verbatim>\<open>/api/5\<close>, the item 5 of the empty name, finds that directory.
\<close>

definition numeric_world :: world where
  "numeric_world = \<lparr>disk = \<lparr>nodes = [[] \<mapsto> Dir, [''api_storage''] \<mapsto> Dir, [''api_storage'', ''5''] \<mapsto> Dir,
     [''api_storage'', ''5'', ''1''] \<mapsto> File True True []], cwd = []\<rparr>, clock = 0\<rparr>"

definition numeric_delete :: request where
  "numeric_delete = (auth_request ''/api/5'' (Some good_header))\<lparr>req_method := verb_delete\<rparr>"

lemma numeric_delete_fatal: "fatal_request (ref_boost put) ''./api_storage/'' ''/api'' numeric_delete (disk numeric_world)"
proof -
  have "removePrefix ''/api'' (req_target numeric_delete) = Some ''/5''"
    by (simp add: numeric_delete_def auth_request_def removePrefix_def)
  moreover have "ref_lexical_cast ''5'' = Some 5" by code_simp
  then have "lexical_cast_int (ref_boost put) (after_last_slash ''/5'') = Some 5" by (simp add: ref_boost_def)
  moreover have "before_last_slash ''/5'' = []" using before_last_slash_append [of "''5''" "[]"] by simp
  moreover have "getPath ''./api_storage/'' [] 5 = ''./api_storage//5''" by code_simp
  moreover have "nonempty_directory (disk numeric_world) ''./api_storage//5''"
    unfolding nonempty_directory_def
    by (intro exI [of _ "[''api_storage'', ''5'']"] exI [of _ "''1''"]) (simp add: resolve_def path_start_def numeric_world_def)
  moreover have "req_method numeric_delete = verb_delete" by (simp add: numeric_delete_def)
  ultimately show ?thesis unfolding fatal_request_def by metis
qed


end
