(* ===== verification/Spec2Isabelle.thy ===== *)
theory Spec2Isabelle
  imports Shipped_Storage Event_Loop_Log API_Faults
begin

text \<open>
  A verification of the swifties web server (the C++ program under \<^verbatim>\<open>src/src/\<close>).

  The program. \<^verbatim>\<open>main\<close> (server_main.cc) parses an Nginx-style configuration file
  (config_parser), reads port, authorization time and credentials from it, and constructs a
  \<^verbatim>\<open>server\<close> (server.cc), which accepts connections for ever. Each connection is a
  \<^verbatim>\<open>session\<close> (session.cc): it collects bytes, parses them with Boost.Beast, checks
  expiry and the Basic credentials, asks the \<^verbatim>\<open>RequestHandlerDispatcher\<close> for the
  handler of the target and sends the handler's response. Handlers serve static files, echo the
  request, answer health checks, sleep, answer 404, or offer a create-read-update-delete interface
  (\<^verbatim>\<open>RequestHandlerAPI\<close>) on \<^verbatim>\<open>CRUDHandler\<close> and
  \<^verbatim>\<open>FileStorage\<close>. All parts write to one \<^verbatim>\<open>Logger\<close>.

  The theories, in the order they build on each other:

  \<^item> \<open>Prelude\<close>: faults (null dereference, index out of range, signed overflow, undefined
    conversion, exception) and the result type that carries them; string searches, decimal printing
    and \<^verbatim>\<open>atoi\<close>; \<^verbatim>\<open>std::map\<close> with string keys as an ordered list.
  \<^item> \<open>Config\<close>, \<open>Config_Lexer\<close>, \<open>Config_Parser\<close>: the tree, its
    printer, \<^verbatim>\<open>ParseToken\<close> and \<^verbatim>\<open>Parse\<close>. The pointer stack of
    \<^verbatim>\<open>Parse\<close> is its height: each pointer on it leads to the child block of the last
    statement of the block below. \<open>Config_Grammar\<close> states what a token sequence of a tree is
    and proves the parser sound and complete for it, total and free of faults;
    \<open>Config_Roundtrip\<close> proves that parsing undoes printing; \<open>Config_Query\<close> has
    \<^verbatim>\<open>get_config_port\<close>, \<^verbatim>\<open>get_auth_time\<close> and
    \<^verbatim>\<open>get_credentials\<close>.
  \<^item> \<open>Base64\<close>: \<^verbatim>\<open>base64_decode\<close> of session.cc on 32-bit words, proved
    equal to a loop on unbounded numbers and inverse to the RFC 4648 encoding.
  \<^item> \<open>File_System\<close>: files, directories, path resolution, streams and
    \<^verbatim>\<open>create_directories\<close>. \<open>Http\<close>: requests, responses and the record
    \<open>boost\<close> of everything the program takes from Beast, Boost.Filesystem and
    \<^verbatim>\<open>lexical_cast\<close>; the locale \<open>boost_laws\<close> states their documented
    behaviour and \<open>ref_boost\<close> is an instance of it.
  \<^item> \<open>File_Storage\<close>, \<open>Crud_Handler\<close>: api/file_storage.cc and
    api/crud_handler.cc. The locale \<open>crud_store\<close> is the contract of
    \<^verbatim>\<open>ICRUDHandler\<close>: a finite map from entity and id to data. The file storage
    fulfils it as long as its root ends in a slash and is a directory whose entries are collections
    (\<open>store_inv\<close>, kept by every operation); \<open>store_abs\<close> is the abstraction.
  \<^item> \<open>Handler_API\<close>: request_handler_api.cc over any \<^verbatim>\<open>ICRUDHandler\<close>; the
    locale \<open>api_client\<close> extends both contracts and holds the lemmas on POST, GET, PUT,
    DELETE and lists, which the interpretation on \<^verbatim>\<open>CRUDHandler\<close> turns into
    properties. \<open>Handlers_Basic\<close>, \<open>Handler_Static\<close>: the other handlers, the MIME
    table and the stand-alone request parser.
  \<^item> \<open>Logger\<close>: the singleton and its records. \<open>Dispatcher\<close>: the handlers as a
    datatype with their virtual calls, registration from a configuration and longest-prefix
    matching; \<open>registered\<close> is the specification of the table.
    \<open>Handler_Contract\<close>: the locale \<open>request_handler\<close>, what the session may rely on
    when it calls any handler, interpreted on all six.
  \<^item> \<open>Session\<close>: the methods of \<^verbatim>\<open>session\<close>; \<open>Session_Log\<close>: what they
    log, and that nothing depends on it; \<open>Session_Run\<close>: the step
    relation over completions of reads and writes, reachable states and their invariant, and the
    behaviour around expiry. \<open>Server\<close>: construction of the server and the handler of
    a completed accept. \<open>Server_Main\<close>: \<^verbatim>\<open>main\<close> with its exit codes.
  \<^item> \<open>Event_Loop\<close>, \<open>Event_Loop_Requests\<close>, \<open>Event_Loop_Safety\<close>: \<^verbatim>\<open>io_service.run()\<close>. The state is the server with all its
    sessions, the world and the logger; \<open>run_one\<close> executes one event (a completed accept, read
    or write, passing time, the interrupt signal, or the end of all work) by calling the handler the
    program registered for it; \<open>event_loop\<close> are the runs with the events they consist of. Every
    connection in a run is simulated by a run of \<open>Session_Run\<close> (\<open>runs_as\<close>), so what
    holds of one session holds of all of them together; the second theory has what single requests do
    to all connections, the third what holds after any events. \<open>Event_Loop_Log\<close>: the one log
    of the process over its whole life. \<open>API_Faults\<close>: which requests fault, for any target
    and any disk, and so which events end the process.
  \<^item> \<open>Beast_Parser\<close>: what \<^verbatim>\<open>parser.put\<close> on a new, non-eager parser is
    documented to do (the locale \<open>beast_put\<close>, which extends \<open>boost_laws\<close> and is fulfilled by
    \<open>header_put\<close>), and what follows for every connection of the event loop (\<open>first_read\<close> is
    the invariant of a session).
  \<^item> \<open>Storage_Spec\<close>: the abstract store with its calls and replies (\<open>store_call\<close>,
    \<open>store_run\<close>), the requests that make a call (\<open>is_call\<close>), and the refinement of the store
    by the API handler, proved once in \<open>api_client\<close> for any \<^verbatim>\<open>ICRUDHandler\<close>.
    \<open>Shipped_Server\<close>: the server with \<^verbatim>\<open>example_config3.conf\<close> and single
    requests to its API. \<open>Connections\<close>: one connection over time; it has at most one read in
    flight, keeps its response once it reads no more (\<open>quiet\<close>), and its authorization clock runs
    from the accept before its own. \<open>Shipped_Storage\<close>: all API requests of all connections of
    the shipped server in one history (\<open>api_history\<close>), whose calls and replies are one run of
    the store (\<open>storage_ok\<close>). This theory: what clients of that server can rely on, all
    components together.

  What the lemmas show. The parser accepts exactly the configurations of its grammar and never
  faults; the queries and the dispatcher are described on every parsed configuration, faults
  included. Authentication accepts exactly the configured credentials, and no handler runs without
  them: in a run in which no connection has delivered valid credentials the disk does not change, the
  process does not end and only 400, 401 and 500 are sent. The API is a correct store for well-formed
  names: the requests of all connections are linearizable to the abstract store, in the order in which they
  are completed and with the replies the connections send, so a stored item can be read until somebody changes it. The disk stays a tree for any names. Every response is framed. The event loop never
  runs out of work, and \<^verbatim>\<open>main\<close> serves exactly when the configuration is complete. Where the code does not do
  what it means to, the theorem states what it does: a request with a body is never answered
  (\<open>request_with_body_never_answered\<close>) and what is stored is empty
  (\<open>stored_items_are_empty\<close>), since the parser is not told to read bodies; a header that does not
  fit the first read is refused (\<open>header_beyond_first_read_rejected\<close>); an idle server rejects its next client
  (\<open>first_request_clock\<close>), an expired session has overlapping operations
  (\<open>expiry_overlaps_writes\<close>), large timers become negative
  (\<open>large_timer_rejects_everything\<close>), targets leave the static root
  (\<open>static_path_traversal\<close>), lists stop at gaps (\<open>API_list_stops_at_gap\<close>),
  two valid requests can end the process (\<open>process_crashes_iff\<close>) and one sleeping request stops
  all connections (\<open>sleep_request_stops_server\<close>).

  The theorems on stored data quantify over the body of a request and assume \<open>boost_laws\<close> only, so
  they hold for a parser that delivers bodies too; with \<open>beast_put\<close> that body is empty.

  Bounds. All loops of the model are total functions; none needs fuel. The one loop of the program
  without a bound of its own, \<^verbatim>\<open>while (true)\<close> in \<^verbatim>\<open>Parse\<close>, is also given
  with a bound on its turns (\<open>Parse_turns\<close>): the length of the input and one is enough. Ids and configuration
  numbers are integers with the range of \<^verbatim>\<open>int\<close> checked where the code counts up;
  \<^verbatim>\<open>short\<close> values are 16-bit words, the Base64 accumulator is a 32-bit word; the clock
  counts nanoseconds without bound.

  Not modelled: Boost itself (a parameter; Asio is the operations in flight and the completions of
  \<open>run_one\<close>), the console output, Boost.Log's files and formats, the call of
  \<^verbatim>\<open>sigaction\<close>, a signal that arrives inside a completion handler, the bytes on the wire
  (a write that overlaps another one, as after expiry, is two operations in flight), symbolic links,
  disk errors, limits on the length of names and other processes on the file system, and the time spent outside
  \<^verbatim>\<open>sleep_for\<close>. Characters above 127 passed to \<^verbatim>\<open>isdigit\<close> count as
  non-digits, as the C locale has it.
\<close>

section \<open>From the configuration file to the stored item\<close>

text \<open>
  C5. The shipped server stores what an authenticated client posts and gives it back to any other:
  with the text of \<^verbatim>\<open>example_config3.conf\<close> as configuration, after any events since
  \<^verbatim>\<open>main\<close> started the loop, let one live connection deliver a POST of a configured user to
  \<^verbatim>\<open>/api/n\<close> and then another live connection a GET of \<^verbatim>\<open>/api/n/k\<close>, where
  \<open>k\<close> is the smallest free id of \<open>n\<close> in \<^verbatim>\<open>./api_storage/\<close>. The first
  event starts a write of a 200 response with that id, stores the body under it and changes nothing
  else in the storage; the second starts a write of a 200 response with the posted body and leaves
  the storage as it is.
\<close>

theorem shipped_server_post_then_get:
  assumes B: "boost_laws B" and serve: "server_main bind [prog, f] w0 lg = Inr (Serving srv0 lg0)"
    and conf: "ifstream_read (disk w0) f = Some example_config3_text"
    and run: "event_loop B (Running srv0 w0 lg0) es (Running srv w lg1)" and ij: "i \<noteq> j"
    and post: "delivers B srv w i d req" "req_method req = verb_post" "req_target req = ''/api/'' @ n" "plain_name n"
    and get: "delivers B srv w j d' req'" "req_method req' = verb_get" "req_target req' = ''/api/'' @ n @ ''/'' @ int_to_string k"
    and store: "store_inv ''./api_storage'' r (disk w)" "int (card (dom (store_abs r (disk w)))) < INT_MAX"
      "is_next_id (store_abs r (disk w)) n k"
  shows "\<exists>srv1 w1 lg2 srv2 lg3. run_one B (Read_Done i (Inr d)) (Running srv w lg1) = Some (Running srv1 w1 lg2) \<and>
    Async_Write \<in> set (pending (started srv1 ! i)) \<and> res_result (response (started srv1 ! i)) = status_ok \<and>
    res_body (response (started srv1 ! i)) = id_json k \<and> store_abs r (disk w1) = (store_abs r (disk w))((n, k) \<mapsto> req_body req) \<and>
    run_one B (Read_Done j (Inr d')) (Running srv1 w1 lg2) = Some (Running srv2 w1 lg3) \<and>
    Async_Write \<in> set (pending (started srv2 ! j)) \<and> res_result (response (started srv2 ! j)) = status_ok \<and>
    res_body (response (started srv2 ! j)) = req_body req"
proof -
  have runs: "runs_as B srv0 w (started srv ! m)" if "delivers B srv w m d req" for m d req
    using serving_loop_ok [OF serve run] that by (auto simp: loop_ok_def loop_inv_def delivers_def waits_for_def)
  obtain srv1 fs lg2 where one: "run_one B (Read_Done i (Inr d)) (Running srv w lg1) = Some (Running srv1 (w\<lparr>disk := fs\<rparr>) lg2)"
      "length (started srv1) = length (started srv)" "started srv1 ! j = started srv ! j" "Async_Write \<in> set (pending (started srv1 ! i))"
      "res_result (response (started srv1 ! i)) = status_ok" "res_body (response (started srv1 ! i)) = id_json k"
    and fs: "k \<le> INT_MAX" "store_inv ''./api_storage'' r fs" "store_abs r fs = (store_abs r (disk w))((n, k) \<mapsto> req_body req)"
    using shipped_post_event [OF B serve conf runs [OF post(1)] post store, of lg1] ij by metis
  have "runs_as B srv0 (w\<lparr>disk := fs\<rparr>) (started srv1 ! j)" using runs_as_later [OF runs [OF get(1)]] one(3) by simp
  moreover have "delivers B srv1 (w\<lparr>disk := fs\<rparr>) j d' req'" using get(1) one(2,3) by (simp add: delivers_def waits_for_def)
  moreover have "store_abs r (disk (w\<lparr>disk := fs\<rparr>)) (n, k) = Some (req_body req)" "store_inv ''./api_storage'' r (disk (w\<lparr>disk := fs\<rparr>))" "0 \<le> k"
    using fs(2,3) store(3) by (simp_all add: is_next_id_def)
  ultimately obtain srv2 lg3 where two: "run_one B (Read_Done j (Inr d')) (Running srv1 (w\<lparr>disk := fs\<rparr>) lg2) = Some (Running srv2 (w\<lparr>disk := fs\<rparr>) lg3)"
      "Async_Write \<in> set (pending (started srv2 ! j))" "res_result (response (started srv2 ! j)) = status_ok"
      "res_body (response (started srv2 ! j)) = req_body req"
    using shipped_get_event [OF B serve conf _ _ get(2,3) _ _ _ fs(1), of "w\<lparr>disk := fs\<rparr>" srv1 j d' r "req_body req" lg2] by blast
  show ?thesis
    using one fs(3) two
    by (intro exI [of _ srv1] exI [of _ "w\<lparr>disk := fs\<rparr>"] exI [of _ lg2] exI [of _ srv2] exI [of _ lg3]) (simp del: run_one.simps)
qed

text \<open>
  C3. All connections together are linearizable to the abstract store. From any state of the loop of the
  shipped server in which \<^verbatim>\<open>./api_storage\<close> is a well-formed storage \<open>r\<close>, let any events
  follow in which every complete request with a valid credential is a call of the API or outside it, fewer
  than the free ids. The process does not crash and the storage stays well formed. There is one history
  with an entry for every request the API handler answered and no other, in the order in which the
  requests were completed, at most one for each connection: the calls of these requests with the status
  and body of the response each connection sends are a run of the abstract store from the first content
  of the storage to the last.
\<close>

theorem shipped_api_linearizable:
  assumes "boost_laws B" and "server_main bind [prog, f] w0 lg = Inr (Serving srv0 lg0)"
    and "ifstream_read (disk w0) f = Some example_config3_text"
    and "event_loop B (Running srv0 w0 lg0) es0 (Running srv1 w1 lg1)" and "event_loop B (Running srv1 w1 lg1) es p"
    and "store_inv ''./api_storage'' r (disk w1)" and "int (card (dom (store_abs r (disk w1))) + length es) < INT_MAX"
    and "\<forall>req\<in>delivered_requests B (srv_credentials srv0) es0 es. tame B req"
  shows "case p of
      Running srv w lg2 \<Rightarrow> store_inv ''./api_storage'' r (disk w) \<and>
        (\<exists>hist. api_history B (Running srv1 w1 lg1) es srv hist \<and>
          store_run (store_abs r (disk w1)) (map (snd \<circ> snd) hist) (store_abs r (disk w)))
    | Exited code lg2 \<Rightarrow> code = 1
    | Crashed f \<Rightarrow> False"
proof -
  have "loop_ok B srv0 w0 (es0 @ es) p" by (rule serving_loop_ok [OF assms(2) event_loop_append [OF assms(4,5)]])
  moreover have "storage_ok B r w1 (Running srv1 w1 lg1) es p" by (rule shipped_storage [OF assms])
  ultimately show ?thesis unfolding storage_ok_def loop_ok_def by (cases p) auto
qed

text \<open>
  C6. A stored item can be read until a client replaces or deletes it: let an item be in the storage in
  some state of the loop of the shipped server, and let events follow as above, none of which delivers a
  PUT or a DELETE of this item with a valid credential. Whatever else was posted, replaced, deleted or
  sent meanwhile, by however many connections, a GET of the item by a configured user on a live
  connection then is answered 200 with the data of the item.
\<close>

theorem shipped_item_readable_until_changed:
  assumes B: "boost_laws B" and serve: "server_main bind [prog, f] w0 lg = Inr (Serving srv0 lg0)"
    and conf: "ifstream_read (disk w0) f = Some example_config3_text"
    and run: "event_loop B (Running srv0 w0 lg0) es0 (Running srv1 w1 lg1)" "event_loop B (Running srv1 w1 lg1) es (Running srv w lg2)"
    and store: "store_inv ''./api_storage'' r (disk w1)" "int (card (dom (store_abs r (disk w1))) + length es) < INT_MAX"
    and tame: "\<forall>req\<in>delivered_requests B (srv_credentials srv0) es0 es. tame B req"
    and item: "store_abs r (disk w1) (n, i) = Some d" "0 \<le> i" "i \<le> INT_MAX"
    and keep: "\<forall>req\<in>delivered_requests B (srv_credentials srv0) es0 es.
      \<not> is_call B ''/api'' ''/api'' req (Delete_Item n i) \<and> (\<forall>d'. \<not> is_call B ''/api'' ''/api'' req (Put_Item n i d'))"
    and get: "delivers B srv w j x req" "req_method req = verb_get" "req_target req = ''/api/'' @ n @ ''/'' @ int_to_string i"
  shows "\<exists>srv2 lg3. run_one B (Read_Done j (Inr x)) (Running srv w lg2) = Some (Running srv2 w lg3) \<and>
    Async_Write \<in> set (pending (started srv2 ! j)) \<and> res_result (response (started srv2 ! j)) = status_ok \<and>
    res_body (response (started srv2 ! j)) = d"
proof -
  note calls = shipped_storage_refinement [OF B serve conf run store tame]
  from calls obtain cs where cs: "store_run (store_abs r (disk w1)) cs (store_abs r (disk w))"
      "\<forall>(c, reply)\<in>set cs. \<exists>req\<in>delivered_requests B (srv_credentials srv0) es0 es. is_call B ''/api'' ''/api'' req c"
    by blast
  have "store_abs r (disk w) (n, i) = Some d"
    by (rule store_run_keeps [OF cs(1) item(1)]) (use cs(2) keep in fastforce)
  moreover have "runs_as B srv0 w (started srv ! j)"
    using serving_loop_ok [OF serve event_loop_append [OF run]] get(1) by (auto simp: loop_ok_def loop_inv_def delivers_def waits_for_def)
  ultimately show ?thesis using shipped_get_event [OF B serve conf _ get _ _ item(2,3), of r d lg2] calls by blast
qed

text \<open>A machine for the witness: the configuration file and an empty storage directory.\<close>

definition shipped_disk :: file_system where
  "shipped_disk = \<lparr>nodes = [[] \<mapsto> Dir, [''c''] \<mapsto> File True True example_config3_text, [''api_storage''] \<mapsto> Dir], cwd = []\<rparr>"

definition shipped_world :: world where
  "shipped_world = \<lparr>disk = shipped_disk, clock = 0\<rparr>"

lemma shipped_read: "ifstream_read (disk shipped_world) ''c'' = Some example_config3_text"
  by (simp add: shipped_world_def shipped_disk_def ifstream_read_def stat_def resolve_def path_start_def)

lemma shipped_store:
  "store_inv ''./api_storage'' [''api_storage''] (disk shipped_world)" "store_abs [''api_storage''] (disk shipped_world) = Map.empty"
  by (auto simp: store_inv_def wf_fs_def shipped_world_def shipped_disk_def path_start_def store_abs_def split: if_splits)

lemma shipped_serves: "\<exists>srv lg'. server_main (\<lambda>_. None) [''server'', ''c''] shipped_world None = Inr (Serving srv lg')"
proof -
  have "Parse_file (disk shipped_world) ''c'' (NginxConfig []) = Inr (True, example_config3)"
    by (simp add: Parse_file_def shipped_read Parse_example_config3)
  from server_main_succeeds [OF this example_config3_port _ example_config3_auth_time _ _ example_config3_credentials]
  show ?thesis using example_config3_registration by simp
qed

text \<open>A POST, a GET of what it stores, and a parser that tells them apart.\<close>

definition shipped_request :: "verb \<Rightarrow> string \<Rightarrow> string \<Rightarrow> request" where
  "shipped_request v t body = \<lparr>req_method = v, req_method_string = [], req_target = t, req_version = 11,
     req_fields = [(''Authorization'', ''Basic '' @ base64_encode (''umer'' @ '':'' @ ''101''))], req_body = body\<rparr>"

definition shipped_boost :: boost where
  "shipped_boost = ref_boost (\<lambda>b. Put_done (if b = ''p'' then shipped_request verb_post (''/api/'' @ ''shoes'') ''boots''
     else shipped_request verb_get (''/api/'' @ ''shoes'' @ ''/'' @ int_to_string 1) []))"

lemma shipped_request_user:
  "\<exists>(u, p)\<in>shipped_users. fields_find (ref_boost put) field_authorization (req_fields (shipped_request v t body)) =
     Some (''Basic '' @ base64_encode (u @ '':'' @ p))"
  by (intro bexI [of _ "(''umer'', ''101'')"]) (simp_all add: shipped_users_def ref_boost_def shipped_request_def)

lemma shipped_server_facts:
  assumes "server_main bind [prog, f] w lg = Inr (Serving srv0 lg0)" and "ifstream_read (disk w) f = Some example_config3_text"
  shows "sint (srv_auth_time srv0) = 1800"
    and "(u, p) \<in> shipped_users \<Longrightarrow> valid_header (srv_credentials srv0) (''Basic '' @ base64_encode (u @ '':'' @ p))"
    and "t \<noteq> [] \<Longrightarrow> last t \<noteq> CHR ''/'' \<Longrightarrow>
      getRequestHandler (srv_dispatcher srv0) (''/api/'' @ t) = Some (RequestHandlerAPI ''./api_storage/'' ''/api'')"
proof -
  have pf: "Parse_file (disk w) ([prog, f] ! 1) (NginxConfig []) = Inr (True, example_config3)"
    by (simp add: Parse_file_def assms(2) Parse_example_config3)
  show "sint (srv_auth_time srv0) = 1800" using serving_auth_time [OF assms(1) pf example_config3_auth_time] by simp
  obtain s where s: "session_of srv0 (clock w) s" using serving_loop_inv [OF assms(1)] by (auto simp: loop_inv_def)
  note ses = shipped_session [OF assms s]
  show "valid_header (srv_credentials srv0) (''Basic '' @ base64_encode (u @ '':'' @ p))" if "(u, p) \<in> shipped_users"
    using ses(1) [OF that] s by (simp add: session_of_def)
  show "getRequestHandler (srv_dispatcher srv0) (''/api/'' @ t) = Some (RequestHandlerAPI ''./api_storage/'' ''/api'')"
    if "t \<noteq> []" "last t \<noteq> CHR ''/''" using ses(3) [OF that] s by (simp add: session_of_def)
qed

lemma shipped_two_connections:
  assumes "server_main (\<lambda>_. None) [''server'', ''c''] shipped_world None = Inr (Serving srv0 lg0)"
  shows "\<exists>srv lg1. event_loop B (Running srv0 shipped_world lg0) [Accept_Done None, Accept_Done None] (Running srv shipped_world lg1) \<and>
    (\<forall>i<2. waits_for srv i Async_Read \<and> buffer (started srv ! i) = [] \<and> last_auth_time (started srv ! i) = 0)"
proof -
  obtain s where s: "accepting srv0 = [s]" "pending s = []" "buffer s = []" "last_auth_time s = 0" "started srv0 = []"
    using serving_accepting [OF assms] by (auto simp: shipped_world_def)
  let ?s = "fst (new_session (srv_dispatcher srv0) (srv_credentials srv0) (srv_auth_time srv0) shipped_world lg0)"
  let ?srv = "srv0\<lparr>accepting := [?s], started := [s\<lparr>pending := [Async_Read]\<rparr>]\<rparr>"
  obtain lg1 where one: "event_loop B (Running srv0 shipped_world lg0) [Accept_Done None] (Running ?srv shipped_world lg1)"
    using run_accepts [OF s(1,2), of B shipped_world lg0] s(5)
      loop_event [OF loop_starts, of B "Accept_Done None" "Running srv0 shipped_world lg0"] by auto
  have "accepting ?srv = [?s]" "pending ?s = []" by (simp_all add: new_session_def)
  from run_accepts [OF this, of B shipped_world lg1] obtain srv lg2 where
    two: "run_one B (Accept_Done None) (Running ?srv shipped_world lg1) = Some (Running srv shipped_world lg2)"
      "started srv = [s\<lparr>pending := [Async_Read]\<rparr>, ?s\<lparr>pending := [Async_Read]\<rparr>]"
    by auto
  from loop_event [OF one two(1)] show ?thesis
    using s two(2)
    by (intro exI [of _ srv] exI [of _ lg2])
       (auto simp: waits_for_def new_session_def shipped_world_def less_Suc_eq numeral_2_eq_2)
qed

theorem shipped_server_post_then_get_witness:
  "\<exists>srv0 lg0 srv lg1 srv1 w1 lg2 srv2 lg3.
     server_main (\<lambda>_. None) [''server'', ''c''] shipped_world None = Inr (Serving srv0 lg0) \<and>
     event_loop shipped_boost (Running srv0 shipped_world lg0) [Accept_Done None, Accept_Done None] (Running srv shipped_world lg1) \<and>
     run_one shipped_boost (Read_Done 0 (Inr ''p'')) (Running srv shipped_world lg1) = Some (Running srv1 w1 lg2) \<and>
     store_abs [''api_storage''] (disk w1) = [(''shoes'', 1) \<mapsto> ''boots''] \<and>
     run_one shipped_boost (Read_Done 1 (Inr ''g'')) (Running srv1 w1 lg2) = Some (Running srv2 w1 lg3) \<and>
     res_body (response (started srv2 ! 1)) = ''boots''"
proof -
  obtain srv0 lg0 where s: "server_main (\<lambda>_. None) [''server'', ''c''] shipped_world None = Inr (Serving srv0 lg0)"
    using shipped_serves by blast
  from shipped_two_connections [OF this] obtain srv lg1 where
    r: "event_loop shipped_boost (Running srv0 shipped_world lg0) [Accept_Done None, Accept_Done None] (Running srv shipped_world lg1)"
      "\<forall>i<2. waits_for srv i Async_Read \<and> buffer (started srv ! i) = [] \<and> last_auth_time (started srv ! i) = 0"
    by blast
  let ?post = "shipped_request verb_post (''/api/'' @ ''shoes'') ''boots''"
  let ?get = "shipped_request verb_get (''/api/'' @ ''shoes'' @ ''/'' @ int_to_string 1) []"
  have B: "boost_laws shipped_boost" unfolding shipped_boost_def by (rule ref.boost_laws_axioms)
  have d: "delivers shipped_boost srv shipped_world 0 ''p'' ?post" "delivers shipped_boost srv shipped_world 1 ''g'' ?get"
    using r(2) shipped_request_user
    by (simp_all add: delivers_def deliverable_def shipped_world_def) (simp_all add: shipped_boost_def)
  have "\<exists>srv1 w1 lg2 srv2 lg3. run_one shipped_boost (Read_Done 0 (Inr ''p'')) (Running srv shipped_world lg1) = Some (Running srv1 w1 lg2) \<and>
    Async_Write \<in> set (pending (started srv1 ! 0)) \<and> res_result (response (started srv1 ! 0)) = status_ok \<and>
    res_body (response (started srv1 ! 0)) = id_json 1 \<and>
    store_abs [''api_storage''] (disk w1) = (store_abs [''api_storage''] (disk shipped_world))((''shoes'', 1) \<mapsto> req_body ?post) \<and>
    run_one shipped_boost (Read_Done 1 (Inr ''g'')) (Running srv1 w1 lg2) = Some (Running srv2 w1 lg3) \<and>
    Async_Write \<in> set (pending (started srv2 ! 1)) \<and> res_result (response (started srv2 ! 1)) = status_ok \<and>
    res_body (response (started srv2 ! 1)) = req_body ?post"
    by (rule shipped_server_post_then_get [OF B s shipped_read r(1) _ d(1) _ _ _ d(2) _ _ shipped_store(1)])
       (simp_all add: shipped_request_def plain_name_def shipped_store(2) is_next_id_def INT_MAX_def)
  then show ?thesis using s r(1) unfolding shipped_store(2) by (simp add: shipped_request_def del: run_one.simps) blast
qed

lemma shipped_boost_calls:
  assumes "parser_put shipped_boost buf = Put_done req"
  shows "is_call shipped_boost ''/api'' ''/api'' req (Post_Item ''shoes'' ''boots'') \<or> is_call shipped_boost ''/api'' ''/api'' req (Get_Item ''shoes'' 1)"
  using assms plain_shoes by (auto simp: shipped_boost_def is_call_def shipped_request_def INT_MAX_def split: if_splits)

lemma shipped_boost_tame: "req \<in> delivered_requests shipped_boost creds es0 es \<Longrightarrow> tame shipped_boost req"
  using shipped_boost_calls by (auto simp: delivered_requests_def tame_def)

lemma shipped_boost_keeps: "req \<in> delivered_requests shipped_boost creds es0 es \<Longrightarrow>
    \<not> is_call shipped_boost q pfx req (Delete_Item n i) \<and> (\<forall>d. \<not> is_call shipped_boost q pfx req (Put_Item n i d))"
  using shipped_boost_calls by (fastforce simp: delivered_requests_def is_call_def)

text \<open>The POST on the first connection, and the second one ready for its GET.\<close>

lemma shipped_first_post:
  assumes "put d = Put_done (shipped_request verb_post (''/api/'' @ ''shoes'') body)" and "deliverable (Inr d)"
  shows "\<exists>srv0 lg0 srv lg1 srv1 fs lg2.
     server_main (\<lambda>_. None) [''server'', ''c''] shipped_world None = Inr (Serving srv0 lg0) \<and>
     event_loop (ref_boost put) (Running srv0 shipped_world lg0) [Accept_Done None, Accept_Done None] (Running srv shipped_world lg1) \<and>
     event_loop (ref_boost put) (Running srv shipped_world lg1) [Read_Done 0 (Inr d)] (Running srv1 (shipped_world\<lparr>disk := fs\<rparr>) lg2) \<and>
     store_inv ''./api_storage'' [''api_storage''] fs \<and> store_abs [''api_storage''] fs = [(''shoes'', 1) \<mapsto> body] \<and>
     waits_for srv1 1 Async_Read \<and> buffer (started srv1 ! 1) = [] \<and> last_auth_time (started srv1 ! 1) = 0"
proof -
  obtain srv0 lg0 where s: "server_main (\<lambda>_. None) [''server'', ''c''] shipped_world None = Inr (Serving srv0 lg0)"
    using shipped_serves by blast
  from shipped_two_connections [OF this] obtain srv lg1 where
    r: "event_loop (ref_boost put) (Running srv0 shipped_world lg0) [Accept_Done None, Accept_Done None] (Running srv shipped_world lg1)"
      "\<forall>i<2. waits_for srv i Async_Read \<and> buffer (started srv ! i) = [] \<and> last_auth_time (started srv ! i) = 0"
    by blast
  let ?post = "shipped_request verb_post (''/api/'' @ ''shoes'') body"
  have del: "delivers (ref_boost put) srv shipped_world 0 d ?post"
    using r(2) shipped_request_user assms by (simp add: delivers_def shipped_world_def)
  have "runs_as (ref_boost put) srv0 shipped_world (started srv ! 0)"
    using serving_loop_ok [OF s r(1)] r(2) [rule_format, of 0] by (simp add: loop_ok_def loop_inv_def waits_for_def)
  note post = shipped_post_event [OF ref.boost_laws_axioms s shipped_read this del, where n = "''shoes''" and k = 1
      and r = "[''api_storage'']" and ?lg1.0 = lg1]
  have "req_method ?post = verb_post" "req_target ?post = ''/api/'' @ ''shoes''" "req_body ?post = body"
      "int (card (dom (store_abs [''api_storage''] (disk shipped_world)))) < INT_MAX"
      "is_next_id (store_abs [''api_storage''] (disk shipped_world)) ''shoes'' 1"
    by (simp_all add: shipped_request_def shipped_store(2) INT_MAX_def is_next_id_def)
  from post [OF this(1,2) plain_shoes shipped_store(1) this(4,5)] this(3) shipped_store(2)
  obtain srv1 fs lg2 where one: "run_one (ref_boost put) (Read_Done 0 (Inr d)) (Running srv shipped_world lg1) =
        Some (Running srv1 (shipped_world\<lparr>disk := fs\<rparr>) lg2)"
      "length (started srv1) = length (started srv)" "\<forall>j. j \<noteq> 0 \<longrightarrow> started srv1 ! j = started srv ! j"
      "store_inv ''./api_storage'' [''api_storage''] fs" "store_abs [''api_storage''] fs = [(''shoes'', 1) \<mapsto> body]"
    by metis
  have "waits_for srv1 1 Async_Read" "buffer (started srv1 ! 1) = []" "last_auth_time (started srv1 ! 1) = 0"
    using r(2) one(2,3) by (simp_all add: waits_for_def)
  then show ?thesis using s r(1) loop_event [OF loop_starts one(1), unfolded append_Nil] one(4,5) by blast
qed

lemma shipped_after_post:
  "\<exists>srv0 lg0 srv lg1 srv1 fs lg2.
     server_main (\<lambda>_. None) [''server'', ''c''] shipped_world None = Inr (Serving srv0 lg0) \<and>
     event_loop shipped_boost (Running srv0 shipped_world lg0) [Accept_Done None, Accept_Done None] (Running srv shipped_world lg1) \<and>
     event_loop shipped_boost (Running srv shipped_world lg1) [Read_Done 0 (Inr ''p'')] (Running srv1 (shipped_world\<lparr>disk := fs\<rparr>) lg2) \<and>
     store_inv ''./api_storage'' [''api_storage''] fs \<and> store_abs [''api_storage''] fs = [(''shoes'', 1) \<mapsto> ''boots''] \<and>
     (\<forall>t\<le>5. delivers shipped_boost srv1 \<lparr>disk = fs, clock = t\<rparr> 1 ''g'' (shipped_request verb_get (''/api/'' @ ''shoes'' @ ''/'' @ int_to_string 1) []))"
proof -
  have "deliverable (Inr ''p'')" by (simp add: deliverable_def)
  from shipped_first_post [where put = "parser_put shipped_boost" and body = "''boots''", OF _ this]
  obtain srv0 lg0 srv lg1 srv1 fs lg2 where one:
     "server_main (\<lambda>_. None) [''server'', ''c''] shipped_world None = Inr (Serving srv0 lg0)"
     "event_loop shipped_boost (Running srv0 shipped_world lg0) [Accept_Done None, Accept_Done None] (Running srv shipped_world lg1)"
     "event_loop shipped_boost (Running srv shipped_world lg1) [Read_Done 0 (Inr ''p'')] (Running srv1 (shipped_world\<lparr>disk := fs\<rparr>) lg2)"
     "store_inv ''./api_storage'' [''api_storage''] fs" "store_abs [''api_storage''] fs = [(''shoes'', 1) \<mapsto> ''boots'']"
     and w: "waits_for srv1 1 Async_Read" "buffer (started srv1 ! 1) = []" "last_auth_time (started srv1 ! 1) = 0"
    unfolding shipped_boost_def parser_put_ref by auto
  have "delivers shipped_boost srv1 \<lparr>disk = fs, clock = t\<rparr> 1 ''g'' (shipped_request verb_get (''/api/'' @ ''shoes'' @ ''/'' @ int_to_string 1) [])"
    if "t \<le> 5" for t
    using w shipped_request_user that unfolding shipped_boost_def by (simp add: delivers_def deliverable_def)
  with one show ?thesis by blast
qed

theorem shipped_api_linearizable_witness:
  "\<exists>srv0 lg0 srv lg1 srv1 w lg2 hist.
     server_main (\<lambda>_. None) [''server'', ''c''] shipped_world None = Inr (Serving srv0 lg0) \<and>
     event_loop shipped_boost (Running srv0 shipped_world lg0) [Accept_Done None, Accept_Done None] (Running srv shipped_world lg1) \<and>
     event_loop shipped_boost (Running srv shipped_world lg1) [Read_Done 0 (Inr ''p'')] (Running srv1 w lg2) \<and>
     api_history shipped_boost (Running srv shipped_world lg1) [Read_Done 0 (Inr ''p'')] srv1 hist \<and>
     store_run Map.empty (map (snd \<circ> snd) hist) (store_abs [''api_storage''] (disk w)) \<and> store_abs [''api_storage''] (disk w) = [(''shoes'', 1) \<mapsto> ''boots'']"
proof -
  have B: "boost_laws shipped_boost" unfolding shipped_boost_def by (rule ref.boost_laws_axioms)
  obtain srv0 lg0 srv lg1 srv1 fs lg2 where
    s: "server_main (\<lambda>_. None) [''server'', ''c''] shipped_world None = Inr (Serving srv0 lg0)"
      "event_loop shipped_boost (Running srv0 shipped_world lg0) [Accept_Done None, Accept_Done None] (Running srv shipped_world lg1)"
      "event_loop shipped_boost (Running srv shipped_world lg1) [Read_Done 0 (Inr ''p'')] (Running srv1 (shipped_world\<lparr>disk := fs\<rparr>) lg2)"
      "store_abs [''api_storage''] fs = [(''shoes'', 1) \<mapsto> ''boots'']"
    using shipped_after_post by blast
  have "int (card (dom (store_abs [''api_storage''] (disk shipped_world))) + length [Read_Done 0 (Inr ''p'')]) < INT_MAX"
    by (simp add: shipped_store(2) INT_MAX_def)
  moreover have "\<forall>req\<in>delivered_requests shipped_boost (srv_credentials srv0) [Accept_Done None, Accept_Done None] [Read_Done 0 (Inr ''p'')].
      tame shipped_boost req"
    using shipped_boost_tame by blast
  ultimately have "\<exists>hist. api_history shipped_boost (Running srv shipped_world lg1) [Read_Done 0 (Inr ''p'')] srv1 hist \<and>
      store_run (store_abs [''api_storage''] (disk shipped_world)) (map (snd \<circ> snd) hist) (store_abs [''api_storage''] fs)"
    using shipped_api_linearizable [OF B s(1) shipped_read s(2,3) shipped_store(1)] by auto
  then obtain hist where hist: "api_history shipped_boost (Running srv shipped_world lg1) [Read_Done 0 (Inr ''p'')] srv1 hist"
      "store_run Map.empty (map (snd \<circ> snd) hist) (store_abs [''api_storage''] (disk (shipped_world\<lparr>disk := fs\<rparr>)))"
    unfolding shipped_store(2) by auto
  with s(1-3) show ?thesis
    by (intro exI [of _ srv0] exI [of _ lg0] exI [of _ srv] exI [of _ lg1] exI [of _ srv1] exI [of _ "shipped_world\<lparr>disk := fs\<rparr>"]
        exI [of _ lg2] exI [of _ hist]) (simp add: s(4))
qed

theorem shipped_item_readable_until_changed_witness:
  "\<exists>srv1 fs lg1 srv2 lg2.
     run_one shipped_boost (Read_Done 1 (Inr ''g'')) (Running srv1 \<lparr>disk = fs, clock = 5\<rparr> lg1) = Some (Running srv2 \<lparr>disk = fs, clock = 5\<rparr> lg2) \<and>
     res_body (response (started srv2 ! 1)) = ''boots''"
proof -
  have B: "boost_laws shipped_boost" unfolding shipped_boost_def by (rule ref.boost_laws_axioms)
  obtain srv0 lg0 srv lg1 srv1 fs lg2 where
    s: "server_main (\<lambda>_. None) [''server'', ''c''] shipped_world None = Inr (Serving srv0 lg0)"
      "event_loop shipped_boost (Running srv0 shipped_world lg0) [Accept_Done None, Accept_Done None] (Running srv shipped_world lg1)"
      "event_loop shipped_boost (Running srv shipped_world lg1) [Read_Done 0 (Inr ''p'')] (Running srv1 (shipped_world\<lparr>disk := fs\<rparr>) lg2)"
    and fs: "store_inv ''./api_storage'' [''api_storage''] fs" "store_abs [''api_storage''] fs = [(''shoes'', 1) \<mapsto> ''boots'']"
      "\<forall>t\<le>5. delivers shipped_boost srv1 \<lparr>disk = fs, clock = t\<rparr> 1 ''g'' (shipped_request verb_get (''/api/'' @ ''shoes'' @ ''/'' @ int_to_string 1) [])"
    using shipped_after_post by blast
  let ?es0 = "[Accept_Done None, Accept_Done None] @ [Read_Done 0 (Inr ''p'')]" and ?es = "[Time_Passes 5]"
  have "run_one shipped_boost (Time_Passes 5) (Running srv1 (shipped_world\<lparr>disk := fs\<rparr>) lg2) = Some (Running srv1 \<lparr>disk = fs, clock = 5\<rparr> lg2)"
    by (simp add: shipped_world_def)
  from loop_event [OF loop_starts this]
  have time: "event_loop shipped_boost (Running srv1 (shipped_world\<lparr>disk := fs\<rparr>) lg2) ?es (Running srv1 \<lparr>disk = fs, clock = 5\<rparr> lg2)" by simp
  have "int (card (dom (store_abs [''api_storage''] (disk (shipped_world\<lparr>disk := fs\<rparr>)))) + length ?es) < INT_MAX"
    by (simp add: fs(2) INT_MAX_def)
  moreover have "store_inv ''./api_storage'' [''api_storage''] (disk (shipped_world\<lparr>disk := fs\<rparr>))"
      "store_abs [''api_storage''] (disk (shipped_world\<lparr>disk := fs\<rparr>)) (''shoes'', 1) = Some ''boots''"
    using fs(1,2) by simp_all
  moreover have "(0::int) \<le> 1" "(1::int) \<le> INT_MAX" by (simp_all add: INT_MAX_def)
  moreover have "delivers shipped_boost srv1 \<lparr>disk = fs, clock = 5\<rparr> 1 ''g'' (shipped_request verb_get (''/api/'' @ ''shoes'' @ ''/'' @ int_to_string 1) [])"
    using fs(3) by blast
  ultimately have "\<exists>srv2 lg3. run_one shipped_boost (Read_Done 1 (Inr ''g'')) (Running srv1 \<lparr>disk = fs, clock = 5\<rparr> lg2) =
      Some (Running srv2 \<lparr>disk = fs, clock = 5\<rparr> lg3) \<and>
    Async_Write \<in> set (pending (started srv2 ! 1)) \<and> res_result (response (started srv2 ! 1)) = status_ok \<and>
    res_body (response (started srv2 ! 1)) = ''boots''"
    by (intro shipped_item_readable_until_changed [OF B s(1) shipped_read event_loop_append [OF s(2,3)] time, where n = "''shoes''" and i = 1
        and req = "shipped_request verb_get (''/api/'' @ ''shoes'' @ ''/'' @ int_to_string 1) []"])
       (use shipped_boost_tame shipped_boost_keeps in \<open>blast, simp_all add: shipped_request_def\<close>)
  then show ?thesis by blast
qed

text \<open>The same POST with a parser that stops at the end of the header: the body is lost.\<close>

theorem stored_items_are_empty_witness:
  "\<exists>srv lg1 srv1 fs lg2.
     event_loop (ref_boost (header_put (\<lambda>_. Some (shipped_request verb_post (''/api/'' @ ''shoes'') ''boots'')))) (Running srv shipped_world lg1)
       [Read_Done 0 (Inr post_header)] (Running srv1 (shipped_world\<lparr>disk := fs\<rparr>) lg2) \<and>
     nodes fs [''api_storage'', ''shoes'', int_to_string 1] = Some (File True True [])"
proof -
  let ?post = "shipped_request verb_post (''/api/'' @ ''shoes'') ''boots''"
  let ?put = "header_put (\<lambda>_. Some ?post)"
  have "header_part post_header \<noteq> None"
    using header_part_None [of post_header] sample_bytes(1) header_put_empty [of post_header] by (auto split: if_splits)
  then have put: "?put post_header = Put_done (shipped_request verb_post (''/api/'' @ ''shoes'') [])"
    by (auto simp: header_put_def shipped_request_def)
  have "deliverable (Inr post_header)" by (simp add: deliverable_def post_header_def header_end_def crlf_def)
  from shipped_first_post [where put = ?put and d = post_header, OF put this] obtain srv lg1 srv1 fs lg2 where
    run: "event_loop (ref_boost ?put) (Running srv shipped_world lg1) [Read_Done 0 (Inr post_header)] (Running srv1 (shipped_world\<lparr>disk := fs\<rparr>) lg2)"
    and store: "store_inv ''./api_storage'' [''api_storage''] fs" "store_abs [''api_storage''] fs = [(''shoes'', 1) \<mapsto> []]"
    by blast
  have "store_abs [''api_storage''] fs (''shoes'', 1) = Some []" using store(2) by simp
  then obtain x where x: "nodes fs [''api_storage'', ''shoes'', int_to_string 1] = Some x"
    by (auto simp: store_abs_def split: option.splits if_splits)
  then obtain z where z: "nodes (disk (shipped_world\<lparr>disk := fs\<rparr>)) [''api_storage'', ''shoes'', int_to_string 1] = Some (File True True z)"
    using store(1) plain_shoes unfolding store_inv_def by fastforce
  from stored_items_are_empty [OF ref_put.beast_put_axioms run z] have "z = []" by (auto simp: shipped_world_def shipped_disk_def)
  with z have "nodes fs [''api_storage'', ''shoes'', int_to_string 1] = Some (File True True [])" by simp
  with run show ?thesis by blast
qed

text \<open>A request on the first connection, 1801 seconds after the start of the server.\<close>

theorem first_request_clock_witness:
  "\<exists>srv0 lg0 srv lg1 srv' lg'.
     server_main (\<lambda>_. None) [''server'', ''c''] shipped_world None = Inr (Serving srv0 lg0) \<and>
     run_one shipped_boost (Read_Done 0 (Inr ''g'')) (Running srv (shipped_world\<lparr>clock := 1801000000000\<rparr>) lg1) =
       Some (Running srv' (shipped_world\<lparr>clock := 1801000000000\<rparr>) lg') \<and>
     response (started srv' ! 0) = unauthorized_response shipped_boost"
proof -
  let ?w = "shipped_world\<lparr>clock := 1801000000000\<rparr>" and ?d = "''g''"
  let ?req = "shipped_request verb_get (''/api/'' @ ''shoes'' @ ''/'' @ int_to_string 1) []"
  have B: "boost_laws shipped_boost" unfolding shipped_boost_def by (rule ref.boost_laws_axioms)
  obtain srv0 lg0 where s: "server_main (\<lambda>_. None) [''server'', ''c''] shipped_world None = Inr (Serving srv0 lg0)"
    using shipped_serves by blast
  from first_connection [OF this, of shipped_boost] obtain srv lg1 s1 where
    acc: "event_loop shipped_boost (Running srv0 shipped_world lg0) [Accept_Done None] (Running srv shipped_world lg1)"
      "started srv = [s1]" "pending s1 = [Async_Read]" by blast
  have "run_one shipped_boost (Time_Passes 1801000000000) (Running srv shipped_world lg1) = Some (Running srv ?w lg1)"
    by (simp add: shipped_world_def)
  from loop_event [OF acc(1) this]
  have run: "event_loop shipped_boost (Running srv0 shipped_world lg0) ([] @ [Accept_Done None] @ [Time_Passes 1801000000000]) (Running srv ?w lg1)"
    by simp
  have wait: "waits_for srv 0 Async_Read" "deliverable (Inr ?d)" "0 = length (started srv0)" "\<forall>error. Accept_Done error \<notin> set []"
      "incomplete_on shipped_boost 0 [Time_Passes 1801000000000]" "parser_put shipped_boost (received_on 0 [Time_Passes 1801000000000] @ ?d) = Put_done ?req"
    using acc(2,3) serving_accepting(1) [OF s]
    by (simp_all add: waits_for_def deliverable_def incomplete_on_def prefix_Cons received_on_def shipped_boost_def)
  have api: "req_target ?req = ''/api/'' @ (''shoes'' @ ''/'' @ int_to_string 1)" "''shoes'' @ ''/'' @ int_to_string 1 \<noteq> []"
      "last (''shoes'' @ ''/'' @ int_to_string 1) \<noteq> CHR ''/''"
    by (simp_all add: shipped_request_def)
  note conf = shipped_server_facts [OF s shipped_read]
  have h: "getRequestHandler (srv_dispatcher srv0) (req_target ?req) = Some (RequestHandlerAPI ''./api_storage/'' ''/api'')"
    using conf(3) [OF api(2,3)] api(1) by simp
  have hdr: "fields_find shipped_boost field_authorization (req_fields ?req) = Some (''Basic '' @ base64_encode (''umer'' @ '':'' @ ''101''))"
    by (simp add: shipped_boost_def ref_boost_def shipped_request_def)
  have valid: "valid_header (srv_credentials srv0) (''Basic '' @ base64_encode (''umer'' @ '':'' @ ''101''))"
    by (rule conf(2)) (simp add: shipped_users_def)
  have "is_call shipped_boost ''/api'' ''/api'' ?req (Get_Item ''shoes'' 1)"
    using plain_shoes by (simp add: is_call_def shipped_request_def INT_MAX_def)
  then obtain r where r: "handleRequest shipped_boost (RequestHandlerAPI ''./api_storage/'' ''/api'') ?req (make_response status_ok 11) ?w = Inr r"
    using API_refines_store [OF B, of "''./api_storage''" "[''api_storage'']" "disk ?w" "''/api''" "''/api''" ?req "Get_Item ''shoes'' 1"
        "make_response status_ok 11"] shipped_store by (auto simp: INT_MAX_def)
  from first_request_clock [OF s loop_starts _ run wait(4,3,5,1,2,6) hdr valid h, of "fst r" "snd r"] r conf(1) s show ?thesis
    by (auto simp: shipped_world_def simp del: run_one.simps)
qed

end
